theory Spec2Isabelle
  imports Main "HOL-Library.AList"
begin

section \<open>The LSP client of src/lspClient.ts\<close>

text \<open>
  The class \<open>LSPClient\<close> is embedded as a record of its private fields together with the
  parts of its environment that its methods act on: the bytes written to the child's
  standard input, the timers armed by \<open>setTimeout\<close>, the promises created by
  \<open>sendRequest\<close>, and the calls made to subscriber callbacks. Every method is a function
  from the state (and its arguments) to the new state. A method that throws returns its
  error as a value. An \<open>async\<close> method is cut at its \<open>await\<close>: one function runs it up to
  the await, a second one resumes it with the outcome of the awaited promise.

  Of the calls to the logging module those at level notice, warning and error are kept,
  each with the fixed part of its message, and so is the line about received diagnostics,
  whose level is computed; the debug and info lines and the per-message traffic log of
  \<open>getLSPMethodLogLevel\<close> are left out (they write to the sink and touch no field of the
  client).
\<close>

subsection \<open>JavaScript values\<close>

text \<open>
  What \<open>JSON.parse\<close> yields and what the client passes on as \<open>any\<close>. Numbers are the
  integers (ids, versions and severities are integers in the protocol). An absent property
  and \<open>undefined\<close> are \<open>None\<close> of an option.
\<close>

datatype jsval =
    JNull
  | JBool bool
  | JNum int
  | JStr string
  | JArr "jsval list"
  | JObj "(string \<times> jsval) list"

text \<open>JavaScript's truthiness, as \<open>if (v)\<close> and \<open>v || d\<close> test it.\<close>

fun truthy :: "jsval \<Rightarrow> bool" where
  "truthy JNull = False"
| "truthy (JBool b) = b"
| "truthy (JNum n) = (n \<noteq> 0)"
| "truthy (JStr s) = (s \<noteq> [])"
| "truthy (JArr xs) = True"
| "truthy (JObj kvs) = True"

text \<open>\<open>v !== undefined\<close>, and \<open>'k' in message\<close> for a key \<open>k\<close> of a parsed message.\<close>

fun defined :: "'a option \<Rightarrow> bool" where
  "defined None = False"
| "defined (Some v) = True"

text \<open>
  Reading a property \<open>v.k\<close> of a value that is not \<open>null\<close>: only objects carry the
  properties the client reads.
\<close>

fun get_prop :: "string \<Rightarrow> jsval \<Rightarrow> jsval option" where
  "get_prop k (JObj kvs) = map_of kvs k"
| "get_prop k v = None"

subsection \<open>Messages\<close>

text \<open>
  Modelled from the spec: the type \<open>LSPMessage\<close> is declared in src/types/index.ts, which
  is not among the sources. Its fields are those lspClient.ts reads and writes: \<open>jsonrpc\<close>,
  \<open>id\<close>, \<open>method\<close>, \<open>params\<close>, \<open>result\<close>, \<open>error\<close>, all but the first optional. A field
  is \<open>None\<close> when the key is absent (\<open>'id' in message\<close> is false, the value is
  \<open>undefined\<close>).
\<close>

record LSPMessage =
  jsonrpc :: string
  msg_id :: "jsval option"
  msg_method :: "string option"
  msg_params :: "jsval option"
  msg_result :: "jsval option"
  msg_error :: "jsval option"

datatype LoggingLevel =
  Debug | Info | Notice | Warning | Error | Critical | Alert | Emergency

datatype error =
    NotInitialized
  | NotStarted
  | TimeoutError string
  | ServerError jsval
  | CallbackError nat
  | TypeError
  | RangeError

text \<open>How a promise of \<open>sendRequest\<close> was settled.\<close>

datatype outcome = Resolved "jsval option" | Rejected error

text \<open>
  An entry of \<open>responsePromises\<close>: the pair of closures \<open>{resolve, reject}\<close>. Both clear the
  timer \<open>timeoutId\<close> and then settle the promise, so the entry is the promise and the timer
  they close over.
\<close>

record PendingCall =
  promise :: nat
  timeoutId :: nat

text \<open>
  An armed timer: the closure passed to \<open>setTimeout\<close> in \<open>sendRequest\<close>, with the \<open>id\<close>,
  the \<open>method\<close> and the \<open>reject\<close> of the promise it closes over, and its delay.
\<close>

record Timer =
  timer_id :: nat
  timer_method :: string
  timer_promise :: nat
  delay :: nat

subsection \<open>The client\<close>

text \<open>
  The JavaScript \<open>Set\<close>s and the \<open>Map\<close> the client iterates over are lists in insertion
  order; \<open>documentVersions\<close> and \<open>responsePromises\<close> are only looked up, and are maps.
  A subscriber callback is named by a number (a \<open>Set\<close> holds functions by identity).
  The keys of \<open>documentDiagnostics\<close> are the values \<open>params.uri\<close> of the notifications
  (strings, for a server that follows the protocol).
  \<open>process\<close> is the number of the child process that \<open>spawn\<close> returned.
\<close>

record client =
  process :: "nat option"
  buffer :: string
  messageQueue :: "LSPMessage list"
  nextId :: nat
  responsePromises :: "nat \<rightharpoonup> PendingCall"
  initialized :: bool
  serverCapabilities :: "jsval option"
  openedDocuments :: "string list"
  documentVersions :: "string \<rightharpoonup> nat"
  processingQueue :: bool
  documentDiagnostics :: "(jsval \<times> jsval list) list"
  diagnosticSubscribers :: "nat list"
  spawned :: nat
  killed :: "nat list"
  written :: "LSPMessage list"
  timers :: "nat \<rightharpoonup> Timer"
  nextTimer :: nat
  nextPromise :: nat
  settled :: "(nat \<times> outcome) list"
  invoked :: "(nat \<times> jsval \<times> jsval list) list"
  logs :: "(LoggingLevel \<times> string) list"

text \<open>The client as the constructor leaves it: nothing spawned, nothing sent.\<close>

definition new_client :: client where
  "new_client =
     \<lparr> process = None, buffer = [], messageQueue = [], nextId = 1,
       responsePromises = Map.empty, initialized = False, serverCapabilities = None,
       openedDocuments = [], documentVersions = Map.empty, processingQueue = False,
       documentDiagnostics = [], diagnosticSubscribers = [],
       spawned = 0, killed = [], written = [], timers = Map.empty, nextTimer = 0,
       nextPromise = 0, settled = [], invoked = [], logs = [] \<rparr>"

definition log :: "LoggingLevel \<Rightarrow> string \<Rightarrow> client \<Rightarrow> client" where
  "log level message st = st\<lparr>logs := logs st @ [(level, message)]\<rparr>"

text \<open>\<open>Set.add\<close> and \<open>Set.delete\<close> on a list in insertion order.\<close>

definition set_add :: "'a \<Rightarrow> 'a list \<Rightarrow> 'a list" where
  "set_add x xs = (if x \<in> set xs then xs else xs @ [x])"

definition set_delete :: "'a \<Rightarrow> 'a list \<Rightarrow> 'a list" where
  "set_delete x xs = removeAll x xs"

subsection \<open>Starting the process\<close>

text \<open>
  \<open>startProcess\<close> spawns a child and keeps its handle. The listeners it installs are the
  functions \<open>handleData\<close> (standard output) and two log lines.
\<close>

definition startProcess :: "client \<Rightarrow> client" where
  "startProcess st = st\<lparr>process := Some (spawned st), spawned := Suc (spawned st)\<rparr>"

subsection \<open>Sending\<close>

text \<open>
  \<open>sendNotification\<close> and \<open>sendRequest\<close> write \<open>header + JSON.stringify(message)\<close> to the
  child's standard input; \<open>written\<close> records the message objects in the order of the
  writes.
\<close>

definition sendNotification :: "client \<Rightarrow> string \<Rightarrow> jsval option \<Rightarrow> client" where
  "sendNotification st method params =
     (if process st = None
      then log Error ''LSP process not started. Please call start_lsp first.'' st
      else st\<lparr>written := written st @
             [\<lparr>jsonrpc = ''2.0'', msg_id = None, msg_method = Some method,
               msg_params = params, msg_result = None, msg_error = None\<rparr>]\<rparr>)"

text \<open>
  \<open>sendRequest\<close> returns a promise. With no process it is a promise already rejected.
  Otherwise the request takes the next id, a timer of 10000 ms is armed, the pair of
  settling closures is stored under the id, and the request is written.
\<close>

definition REQUEST_TIMEOUT :: nat where
  "REQUEST_TIMEOUT = 10000"

definition sendRequest :: "client \<Rightarrow> string \<Rightarrow> jsval option \<Rightarrow> nat \<times> client" where
  "sendRequest st method params =
     (let p = nextPromise st in
      if process st = None
      then (p, st\<lparr>nextPromise := Suc p, settled := settled st @ [(p, Rejected NotStarted)]\<rparr>)
      else
        let i = nextId st;
            t = nextTimer st;
            request = \<lparr>jsonrpc = ''2.0'', msg_id = Some (JNum (int i)),
                        msg_method = Some method, msg_params = params,
                        msg_result = None, msg_error = None\<rparr>
        in (p, st\<lparr>nextId := Suc i,
                   nextPromise := Suc p,
                   nextTimer := Suc t,
                   timers := (timers st)(t \<mapsto>
                      \<lparr>timer_id = i, timer_method = method, timer_promise = p,
                        delay = REQUEST_TIMEOUT\<rparr>),
                   responsePromises := (responsePromises st)(i \<mapsto>
                      \<lparr>promise = p, timeoutId = t\<rparr>),
                   written := written st @ [request]\<rparr>))"

subsection \<open>Documents\<close>

definition didOpenParams :: "string \<Rightarrow> string \<Rightarrow> string \<Rightarrow> jsval" where
  "didOpenParams uri languageId content =
     JObj [(''textDocument'',
            JObj [(''uri'', JStr uri), (''languageId'', JStr languageId),
                  (''version'', JNum 1), (''text'', JStr content)])]"

definition didChangeParams :: "string \<Rightarrow> nat \<Rightarrow> string \<Rightarrow> jsval" where
  "didChangeParams uri newVersion content =
     JObj [(''textDocument'', JObj [(''uri'', JStr uri), (''version'', JNum (int newVersion))]),
           (''contentChanges'', JArr [JObj [(''text'', JStr content)]])]"

definition didCloseParams :: "string \<Rightarrow> jsval" where
  "didCloseParams uri = JObj [(''textDocument'', JObj [(''uri'', JStr uri)])]"

text \<open>
  \<open>openDocument\<close>: a document already in \<open>openedDocuments\<close> is updated (a
  \<open>textDocument/didChange\<close> with the whole text and the next version, \<open>get(uri) || 1\<close> being
  the current one), any other is opened with version 1.
\<close>

definition openDocument :: "client \<Rightarrow> string \<Rightarrow> string \<Rightarrow> string \<Rightarrow> error + client" where
  "openDocument st uri content languageId =
     (if \<not> initialized st then Inl NotInitialized
      else if uri \<in> set (openedDocuments st) then
        let currentVersion =
              (case documentVersions st uri of
                 None \<Rightarrow> 1
               | Some v \<Rightarrow> if v = 0 then 1 else v);
            newVersion = currentVersion + 1;
            st1 = sendNotification st ''textDocument/didChange''
                    (Some (didChangeParams uri newVersion content))
        in Inr (st1\<lparr>documentVersions := (documentVersions st1)(uri \<mapsto> newVersion)\<rparr>)
      else
        let st1 = sendNotification st ''textDocument/didOpen''
                    (Some (didOpenParams uri languageId content))
        in Inr (st1\<lparr>openedDocuments := set_add uri (openedDocuments st1),
                     documentVersions := (documentVersions st1)(uri \<mapsto> 1)\<rparr>))"

definition isDocumentOpen :: "client \<Rightarrow> string \<Rightarrow> bool" where
  "isDocumentOpen st uri = (uri \<in> set (openedDocuments st))"

definition getOpenDocuments :: "client \<Rightarrow> string list" where
  "getOpenDocuments st = openedDocuments st"

definition closeDocument :: "client \<Rightarrow> string \<Rightarrow> error + client" where
  "closeDocument st uri =
     (if \<not> initialized st then Inl NotInitialized
      else if uri \<in> set (openedDocuments st) then
        let st1 = sendNotification st ''textDocument/didClose'' (Some (didCloseParams uri))
        in Inr (st1\<lparr>openedDocuments := set_delete uri (openedDocuments st1),
                     documentVersions := (documentVersions st1)(uri := None)\<rparr>)
      else Inr st)"

text \<open>
  A run of calls of \<open>openDocument\<close> on one uri, each with its text and language id; the
  first call that throws ends the run.
\<close>

fun openDocument_calls :: "client \<Rightarrow> string \<Rightarrow> (string \<times> string) list \<Rightarrow> error + client" where
  "openDocument_calls st uri [] = Inr st"
| "openDocument_calls st uri ((content, languageId) # calls) =
     (case openDocument st uri content languageId of
        Inl e \<Rightarrow> Inl e
      | Inr st1 \<Rightarrow> openDocument_calls st1 uri calls)"

definition notification :: "string \<Rightarrow> jsval \<Rightarrow> LSPMessage" where
  "notification method params =
     \<lparr>jsonrpc = ''2.0'', msg_id = None, msg_method = Some method,
      msg_params = Some params, msg_result = None, msg_error = None\<rparr>"

subsection \<open>Responses, timeouts and diagnostics\<close>

text \<open>
  The key under which \<open>responsePromises.get(message.id)\<close> looks: the map holds the numbers
  \<open>sendRequest\<close> assigned, so only a number that is one of them finds an entry.
\<close>

fun id_key :: "jsval \<Rightarrow> nat option" where
  "id_key (JNum n) = (if 0 \<le> n then Some (nat n) else None)"
| "id_key v = None"

text \<open>
  The closures stored in \<open>responsePromises\<close>: \<open>clearTimeout(timeoutId)\<close>, then the
  promise's own \<open>resolve\<close> or \<open>reject\<close>. \<open>settled\<close> records every such call, in order.
\<close>

definition settle :: "client \<Rightarrow> PendingCall \<Rightarrow> outcome \<Rightarrow> client" where
  "settle st pc oc =
     st\<lparr>timers := (timers st)(timeoutId pc := None),
        settled := settled st @ [(promise pc, oc)]\<rparr>"

text \<open>
  The callback of \<open>setTimeout\<close> in \<open>sendRequest\<close>. A timer that was cleared, or has fired,
  does not fire. The callback tests \<open>responsePromises.has(id)\<close> for the id it closes over
  and rejects the promise it closes over.
\<close>

definition timeoutFires :: "client \<Rightarrow> nat \<Rightarrow> client" where
  "timeoutFires st t =
     (case timers st t of
        None \<Rightarrow> st
      | Some tm \<Rightarrow>
          let st1 = st\<lparr>timers := (timers st)(t := None)\<rparr> in
          if defined (responsePromises st1 (timer_id tm))
          then st1\<lparr>responsePromises := (responsePromises st1)(timer_id tm := None),
                   settled := settled st1 @
                     [(timer_promise tm, Rejected (TimeoutError (timer_method tm)))]\<rparr>
          else st1)"

text \<open>
  \<open>Map.set\<close> on the list of entries: a key that is there keeps its place, a new key goes
  last. A key that is an array or an object is a fresh one (keys are compared by identity),
  so it always makes a new entry.
\<close>

fun map_set :: "jsval \<Rightarrow> 'v \<Rightarrow> (jsval \<times> 'v) list \<Rightarrow> (jsval \<times> 'v) list" where
  "map_set (JArr xs) v kvs = kvs @ [(JArr xs, v)]"
| "map_set (JObj ps) v kvs = kvs @ [(JObj ps, v)]"
| "map_set k v kvs = AList.update k v kvs"

text \<open>
  \<open>notifyDiagnosticUpdate\<close>: every subscriber is called inside \<open>try\<close>; a callback that
  throws is logged and the loop goes on. \<open>raises cb uri ds\<close> says whether the callback
  \<open>cb\<close> throws on these arguments; \<open>invoked\<close> records the calls. Callbacks are taken not to
  call back into the client.
\<close>

fun notify_each ::
  "(nat \<Rightarrow> jsval \<Rightarrow> jsval list \<Rightarrow> bool) \<Rightarrow> nat list \<Rightarrow> jsval \<Rightarrow> jsval list \<Rightarrow> client \<Rightarrow> client"
where
  "notify_each raises [] uri diagnostics st = st"
| "notify_each raises (cb # cbs) uri diagnostics st =
     (let st1 = st\<lparr>invoked := invoked st @ [(cb, uri, diagnostics)]\<rparr>;
          st2 = (if raises cb uri diagnostics
                 then log Warning ''Error in diagnostic subscriber callback:'' st1
                 else st1)
      in notify_each raises cbs uri diagnostics st2)"

definition notifyDiagnosticUpdate ::
  "(nat \<Rightarrow> jsval \<Rightarrow> jsval list \<Rightarrow> bool) \<Rightarrow> client \<Rightarrow> jsval \<Rightarrow> jsval list \<Rightarrow> client"
where
  "notifyDiagnosticUpdate raises st uri diagnostics =
     notify_each raises (diagnosticSubscribers st) uri diagnostics st"

text \<open>
  \<open>handleMessage\<close> is three \<open>if\<close> statements in a row, each a function here. The first
  (\<open>// Handle response messages\<close>): a message with an id and a result or an error settles
  the pending call of its id, if there is one, and removes it.
\<close>

definition handleResponse :: "client \<Rightarrow> LSPMessage \<Rightarrow> client" where
  "handleResponse st message =
     (if defined (msg_id message) \<and>
         (defined (msg_result message) \<or> defined (msg_error message))
      then
        (case Option.bind (msg_id message) id_key of
           None \<Rightarrow> st
         | Some i \<Rightarrow>
             (case responsePromises st i of
                None \<Rightarrow> st
              | Some pc \<Rightarrow>
                  let st' =
                        (case msg_error message of
                           Some e \<Rightarrow>
                             if truthy e then settle st pc (Rejected (ServerError e))
                             else settle st pc (Resolved (msg_result message))
                         | None \<Rightarrow> settle st pc (Resolved (msg_result message)))
                  in st'\<lparr>responsePromises := (responsePromises st')(i := None)\<rparr>))
      else st)"

text \<open>
  The second (\<open>// Store server capabilities from initialize response\<close>): a truthy
  \<open>message.result?.capabilities\<close> of a message with an id is kept.
\<close>

definition storeCapabilities :: "client \<Rightarrow> LSPMessage \<Rightarrow> client" where
  "storeCapabilities st message =
     (if defined (msg_id message)
      then
        (case Option.bind (msg_result message) (get_prop ''capabilities'') of
           Some c \<Rightarrow> if truthy c then st\<lparr>serverCapabilities := Some c\<rparr> else st
         | None \<Rightarrow> st)
      else st)"

text \<open>
  The level of the line \<open>Received N diagnostics\<close>. Each item gives \<open>d.severity || 4\<close>;
  reading the property of an item that is \<open>null\<close> throws a TypeError. \<open>Math.min\<close> coerces
  its arguments to numbers: a number is itself, \<open>true\<close> is 1, an object is \<open>NaN\<close>. A severity
  is a number in the protocol; of the others the model takes a string and an array to \<open>NaN\<close>
  too (JavaScript turns those that spell a number into that number). \<open>None\<close> is \<open>NaN\<close>.
\<close>

definition severityOr4 :: "jsval \<Rightarrow> jsval" where
  "severityOr4 d =
     (case get_prop ''severity'' d of
        Some v \<Rightarrow> if truthy v then v else JNum 4
      | None \<Rightarrow> JNum 4)"

fun toNumber :: "jsval \<Rightarrow> int option" where
  "toNumber (JNum n) = Some n"
| "toNumber (JBool b) = Some (if b then 1 else 0)"
| "toNumber JNull = Some 0"
| "toNumber v = None"

fun mathMin :: "int option list \<Rightarrow> int option" where
  "mathMin [] = None"
| "mathMin [x] = x"
| "mathMin (x # y # ys) =
     (case (x, mathMin (y # ys)) of
        (Some a, Some b) \<Rightarrow> Some (min a b)
      | _ \<Rightarrow> None)"

text \<open>\<open>severityToLevel[severity] || 'debug'\<close>.\<close>

fun severityToLevel :: "int option \<Rightarrow> LoggingLevel" where
  "severityToLevel (Some n) =
     (if n = 1 then Error else if n = 2 then Warning else if n = 3 then Info else Debug)"
| "severityToLevel None = Debug"

text \<open>
  A call \<open>f(...xs)\<close> passes the elements of \<open>xs\<close> as arguments, and the engine throws a
  RangeError when there are more of them than its stack takes. The number depends on the
  engine and on the size of its stack; for Node with its default stack it is of the order
  of 125000, the value taken here. The proofs below use of it only that a list of one or
  two items is within the limit.
\<close>

definition MAX_SPREAD_ARGUMENTS :: nat where
  "MAX_SPREAD_ARGUMENTS = 125000"

text \<open>
  The third (\<open>// Handle notification messages\<close>): a \<open>textDocument/publishDiagnostics\<close>
  notification with a truthy \<open>uri\<close> and an array of diagnostics is logged, replaces the
  stored entry and is passed to the subscribers. Before that, for an array that is not
  empty, \<open>Math.min(...diagnostics.map(d => d.severity || 4))\<close> is computed: the arrow function
  throws a TypeError on an item that is \<open>null\<close>, and the call throws a RangeError on an array
  longer than the engine's limit; then nothing is logged or stored.
\<close>

definition handleNotification ::
  "(nat \<Rightarrow> jsval \<Rightarrow> jsval list \<Rightarrow> bool) \<Rightarrow> client \<Rightarrow> LSPMessage \<Rightarrow> error option \<times> client"
where
  "handleNotification raises st message =
     (if defined (msg_method message) \<and> msg_id message = None
      then
        (case msg_params message of
           None \<Rightarrow> (None, st)
         | Some ps \<Rightarrow>
             if msg_method message = Some ''textDocument/publishDiagnostics'' \<and> truthy ps
             then
               (case (get_prop ''uri'' ps, get_prop ''diagnostics'' ps) of
                  (Some uri, Some (JArr diagnostics)) \<Rightarrow>
                    if truthy uri then
                      if JNull \<in> set diagnostics then (Some TypeError, st)
                      else if length diagnostics > MAX_SPREAD_ARGUMENTS then (Some RangeError, st)
                      else
                        let severity =
                              (if diagnostics = [] then Some 4
                               else mathMin (map (\<lambda>d. toNumber (severityOr4 d)) diagnostics));
                            st1 = log (severityToLevel severity) ''Received diagnostics'' st
                        in (None,
                            notifyDiagnosticUpdate raises
                              (st1\<lparr>documentDiagnostics :=
                                    map_set uri diagnostics (documentDiagnostics st1)\<rparr>)
                              uri diagnostics)
                    else (None, st)
                | _ \<Rightarrow> (None, st))
             else (None, st))
      else (None, st))"

definition handleMessage ::
  "(nat \<Rightarrow> jsval \<Rightarrow> jsval list \<Rightarrow> bool) \<Rightarrow> client \<Rightarrow> LSPMessage \<Rightarrow> error option \<times> client"
where
  "handleMessage raises st message =
     handleNotification raises (storeCapabilities (handleResponse st message) message) message"

text \<open>
  \<open>processMessageQueue\<close> is \<open>async\<close>, and \<open>handleMessage\<close>, which it awaits, has no await
  of its own. A call returns at once when the guard \<open>processingQueue\<close> is set. Otherwise it
  sets the guard, takes the first message off the queue, runs \<open>handleMessage\<close> on it to its
  end, and is suspended at its \<open>await\<close>; control is back with the caller, the guard still
  set. The result says how the call stands: \<open>None\<close> when it has returned, \<open>Some e\<close> when it
  is suspended, \<open>e\<close> being the error \<open>handleMessage\<close> threw, if it threw.
\<close>

definition processMessageQueue_begin ::
  "(nat \<Rightarrow> jsval \<Rightarrow> jsval list \<Rightarrow> bool) \<Rightarrow> client \<Rightarrow> error option option \<times> client"
where
  "processMessageQueue_begin raises st =
     (if processingQueue st then (None, st)
      else
        (case messageQueue st of
           [] \<Rightarrow> (None, st\<lparr>processingQueue := False\<rparr>)
         | m # ms \<Rightarrow>
             (case handleMessage raises (st\<lparr>processingQueue := True, messageQueue := ms\<rparr>) m of
                (e, st1) \<Rightarrow> (Some e, st1))))"

text \<open>
  The suspended call goes on when the code that was running has returned, before any
  other event is handled. When \<open>handleMessage\<close> threw, the \<open>await\<close> throws: the \<open>finally\<close>
  resets the guard and the messages still queued stay there. Otherwise the loop takes the
  next message, and so on to the end of the queue, where the \<open>finally\<close> resets the guard.
\<close>

fun drain ::
  "(nat \<Rightarrow> jsval \<Rightarrow> jsval list \<Rightarrow> bool) \<Rightarrow> LSPMessage list \<Rightarrow> client \<Rightarrow> error option \<times> client"
where
  "drain raises [] st = (None, st\<lparr>messageQueue := [], processingQueue := False\<rparr>)"
| "drain raises (m # ms) st =
     (case handleMessage raises (st\<lparr>messageQueue := ms\<rparr>) m of
        (Some e, st1) \<Rightarrow> (Some e, st1\<lparr>processingQueue := False\<rparr>)
      | (None, st1) \<Rightarrow> drain raises ms st1)"

definition processMessageQueue_resume ::
  "(nat \<Rightarrow> jsval \<Rightarrow> jsval list \<Rightarrow> bool) \<Rightarrow> error option \<Rightarrow> client \<Rightarrow> error option \<times> client"
where
  "processMessageQueue_resume raises e st =
     (case e of
        Some err \<Rightarrow> (Some err, st\<lparr>processingQueue := False\<rparr>)
      | None \<Rightarrow> drain raises (messageQueue st) st)"

subsection \<open>Diagnostics queries and subscriptions\<close>

definition getDiagnostics :: "client \<Rightarrow> string \<Rightarrow> jsval list" where
  "getDiagnostics st uri =
     (case map_of (documentDiagnostics st) (JStr uri) of None \<Rightarrow> [] | Some ds \<Rightarrow> ds)"

definition getAllDiagnostics :: "client \<Rightarrow> (jsval \<times> jsval list) list" where
  "getAllDiagnostics st = documentDiagnostics st"

text \<open>
  \<open>subscribeToDiagnostics\<close> adds the callback and calls it on every stored entry, in the
  order of the \<open>Map\<close>. These calls are not inside a \<open>try\<close>: a callback that throws ends the
  \<open>forEach\<close> and the method throws.
\<close>

fun deliver_stored ::
  "(nat \<Rightarrow> jsval \<Rightarrow> jsval list \<Rightarrow> bool) \<Rightarrow> nat \<Rightarrow> (jsval \<times> jsval list) list \<Rightarrow> client
     \<Rightarrow> error option \<times> client"
where
  "deliver_stored raises cb [] st = (None, st)"
| "deliver_stored raises cb ((uri, diagnostics) # rest) st =
     (let st1 = st\<lparr>invoked := invoked st @ [(cb, uri, diagnostics)]\<rparr> in
      if raises cb uri diagnostics then (Some (CallbackError cb), st1)
      else deliver_stored raises cb rest st1)"

definition subscribeToDiagnostics ::
  "(nat \<Rightarrow> jsval \<Rightarrow> jsval list \<Rightarrow> bool) \<Rightarrow> client \<Rightarrow> nat \<Rightarrow> error option \<times> client"
where
  "subscribeToDiagnostics raises st callback =
     (let st1 = st\<lparr>diagnosticSubscribers := set_add callback (diagnosticSubscribers st)\<rparr>
      in deliver_stored raises callback (documentDiagnostics st1) st1)"

definition unsubscribeFromDiagnostics :: "client \<Rightarrow> nat \<Rightarrow> client" where
  "unsubscribeFromDiagnostics st callback =
     st\<lparr>diagnosticSubscribers := set_delete callback (diagnosticSubscribers st)\<rparr>"

definition clearDiagnosticSubscribers :: "client \<Rightarrow> client" where
  "clearDiagnosticSubscribers st = st\<lparr>diagnosticSubscribers := []\<rparr>"

subsection \<open>Lifecycle\<close>

text \<open>
  What an \<open>async\<close> method has done when control returns to the event loop: it has
  returned, it has thrown, or it waits for a promise of \<open>sendRequest\<close>.
\<close>

datatype step = Completed | Threw error | Awaiting nat

text \<open>
  The parameters of the \<open>initialize\<close> request. \<open>pid\<close> is \<open>process.pid\<close> of the host and
  \<open>rootPath\<close> is \<open>path.resolve(rootDirectory)\<close>; both come from the runtime.
\<close>

definition initializeParams :: "int \<Rightarrow> string \<Rightarrow> jsval" where
  "initializeParams pid rootPath =
     JObj [(''processId'', JNum pid),
           (''clientInfo'', JObj [(''name'', JStr ''lsp-mcp-server'')]),
           (''rootUri'', JStr (''file://'' @ rootPath)),
           (''capabilities'',
            JObj [(''textDocument'',
              JObj [(''hover'', JObj [(''contentFormat'', JArr [JStr ''markdown'', JStr ''plaintext''])]),
                    (''completion'',
                       JObj [(''completionItem'', JObj [(''snippetSupport'', JBool False)])]),
                    (''codeAction'', JObj [(''dynamicRegistration'', JBool True)]),
                    (''diagnostic'', JObj [(''dynamicRegistration'', JBool False)]),
                    (''publishDiagnostics'',
                       JObj [(''relatedInformation'', JBool True),
                             (''versionSupport'', JBool False),
                             (''tagSupport'', JObj []),
                             (''codeDescriptionSupport'', JBool True),
                             (''dataSupport'', JBool True)])])])]"

text \<open>\<open>initialize\<close> up to \<open>await this.sendRequest("initialize", ...)\<close>.\<close>

definition initialize_begin ::
  "int \<Rightarrow> (string \<Rightarrow> string) \<Rightarrow> client \<Rightarrow> string \<Rightarrow> step \<times> client"
where
  "initialize_begin pid resolve st rootDirectory =
     (if initialized st then (Completed, st)
      else
        let st1 = (if process st = None then startProcess st else st);
            (p, st2) = sendRequest st1 ''initialize''
                         (Some (initializeParams pid (resolve rootDirectory)))
        in (Awaiting p, st2))"

text \<open>\<open>initialize\<close> from the await on: the \<open>try\<close> block's rest, or the \<open>catch\<close>, which rethrows.\<close>

definition initialize_resume :: "client \<Rightarrow> outcome \<Rightarrow> step \<times> client" where
  "initialize_resume st oc =
     (case oc of
        Resolved r \<Rightarrow>
          let st1 = sendNotification st ''initialized'' (Some (JObj []))
          in (Completed,
              log Notice ''LSP connection initialized successfully'' (st1\<lparr>initialized := True\<rparr>))
      | Rejected e \<Rightarrow> (Threw e, log Error ''Failed to initialize LSP connection:'' st))"

text \<open>
  \<open>shutdown\<close> up to \<open>await this.sendRequest("shutdown")\<close>: the subscribers are cleared and a
  \<open>textDocument/didClose\<close> is sent for every open document, in the order of the set.
\<close>

definition shutdown_begin :: "client \<Rightarrow> step \<times> client" where
  "shutdown_begin st =
     (if \<not> initialized st then (Completed, st)
      else
        let st1 = clearDiagnosticSubscribers st;
            st2 = fold (\<lambda>uri s. sendNotification s ''textDocument/didClose''
                                   (Some (didCloseParams uri)))
                       (openedDocuments st1) st1;
            (p, st3) = sendRequest st2 ''shutdown'' None
        in (Awaiting p, st3))"

text \<open>
  \<open>shutdown\<close> from the await on: the rest of the \<open>try\<close> block, or the \<open>catch\<close>, which logs the
  error and lets the method return.
\<close>

definition shutdown_resume :: "client \<Rightarrow> outcome \<Rightarrow> step \<times> client" where
  "shutdown_resume st oc =
     (case oc of
        Resolved r \<Rightarrow>
          let st1 = sendNotification st ''exit'' None
          in (Completed,
              log Notice ''LSP connection shut down successfully''
                (st1\<lparr>initialized := False, openedDocuments := []\<rparr>))
      | Rejected e \<Rightarrow> (Completed, log Error ''Error shutting down LSP connection:'' st))"

text \<open>\<open>restart\<close>: the kill, the reset of the fields, the new process.\<close>

definition kill_process :: "client \<Rightarrow> client" where
  "kill_process st =
     (case process st of
        None \<Rightarrow> st
      | Some child \<Rightarrow>
          if child \<in> set (killed st) then st
          else log Notice ''Killed existing LSP process'' (st\<lparr>killed := killed st @ [child]\<rparr>))"

definition reset_state :: "client \<Rightarrow> client" where
  "reset_state st =
     st\<lparr>buffer := [], messageQueue := [], nextId := 1, responsePromises := Map.empty,
        initialized := False, serverCapabilities := None, openedDocuments := [],
        documentVersions := Map.empty, processingQueue := False,
        documentDiagnostics := [], diagnosticSubscribers := []\<rparr>"

text \<open>
  \<open>restart\<close> from \<open>// Kill the process if it's still running\<close> on, up to the await of
  \<open>initialize\<close> when a root directory is given (a truthy string).
\<close>

definition restart_reset ::
  "int \<Rightarrow> (string \<Rightarrow> string) \<Rightarrow> client \<Rightarrow> string option \<Rightarrow> step \<times> client"
where
  "restart_reset pid resolve st rootDirectory =
     (let st1 = startProcess (reset_state (kill_process st)) in
      case rootDirectory of
        None \<Rightarrow> (Completed, st1)
      | Some root \<Rightarrow>
          if root = [] then (Completed, st1) else initialize_begin pid resolve st1 root)"

text \<open>\<open>restart\<close> up to its first await: that of \<open>shutdown\<close> when the client is initialized.\<close>

definition restart_begin ::
  "int \<Rightarrow> (string \<Rightarrow> string) \<Rightarrow> client \<Rightarrow> string option \<Rightarrow> step \<times> client"
where
  "restart_begin pid resolve st rootDirectory =
     (if initialized st
      then
        (case shutdown_begin st of
           (Awaiting p, st1) \<Rightarrow> (Awaiting p, st1)
         | (r, st1) \<Rightarrow> restart_reset pid resolve st1 rootDirectory)
      else restart_reset pid resolve st rootDirectory)"

text \<open>\<open>restart\<close> resumed when the promise \<open>shutdown\<close> waited for is settled.\<close>

definition restart_after_shutdown ::
  "int \<Rightarrow> (string \<Rightarrow> string) \<Rightarrow> client \<Rightarrow> string option \<Rightarrow> outcome \<Rightarrow> step \<times> client"
where
  "restart_after_shutdown pid resolve st rootDirectory oc =
     (case shutdown_resume st oc of
        (Threw e, st1) \<Rightarrow>
          restart_reset pid resolve
            (log Warning ''Error shutting down LSP server during restart:'' st1) rootDirectory
      | (r, st1) \<Rightarrow> restart_reset pid resolve st1 rootDirectory)"

text \<open>\<open>restart\<close> resumed when the promise \<open>initialize\<close> waited for is settled.\<close>

definition restart_after_initialize :: "client \<Rightarrow> outcome \<Rightarrow> step \<times> client" where
  "restart_after_initialize st oc =
     (case initialize_resume st oc of
        (Completed, st1) \<Rightarrow>
          (Completed, log Notice ''LSP server restarted and initialized with root directory'' st1)
      | (r, st1) \<Rightarrow> (r, st1))"

subsection \<open>States used as examples\<close>

text \<open>A client whose first process is running and whose \<open>initialize\<close> has succeeded.\<close>

definition ready_client :: client where
  "ready_client = new_client\<lparr>process := Some 0, spawned := 1, initialized := True\<rparr>"

text \<open>Messages of the server: a response that carries a result, a diagnostics notification.\<close>

definition response :: "nat \<Rightarrow> jsval \<Rightarrow> LSPMessage" where
  "response i r =
     \<lparr>jsonrpc = ''2.0'', msg_id = Some (JNum (int i)), msg_method = None,
      msg_params = None, msg_result = Some r, msg_error = None\<rparr>"

definition publishDiagnostics :: "string \<Rightarrow> jsval list \<Rightarrow> LSPMessage" where
  "publishDiagnostics uri diagnostics =
     notification ''textDocument/publishDiagnostics''
       (JObj [(''uri'', JStr uri), (''diagnostics'', JArr diagnostics)])"

text \<open>Callbacks: one that never throws, one that always does, one that throws on one uri.\<close>

definition quiet :: "nat \<Rightarrow> jsval \<Rightarrow> jsval list \<Rightarrow> bool" where
  "quiet cb uri diagnostics = False"

definition throwing :: "nat \<Rightarrow> jsval \<Rightarrow> jsval list \<Rightarrow> bool" where
  "throwing cb uri diagnostics = True"

definition raises_on :: "jsval \<Rightarrow> nat \<Rightarrow> jsval \<Rightarrow> jsval list \<Rightarrow> bool" where
  "raises_on k cb uri diagnostics = (uri = k)"

text \<open>An initialized client that holds diagnostics of two documents.\<close>

definition stored_client :: client where
  "stored_client =
     ready_client\<lparr>documentDiagnostics :=
        [(JStr ''file:///b.txt'', [JObj [(''severity'', JNum 2)]]),
         (JStr ''file:///c.txt'', [])]\<rparr>"

subsection \<open>Runs of the correlator\<close>

text \<open>
  What happens to the table of pending calls between two restarts: a request is sent, a
  message of the server is handled, a timer fires.
\<close>

datatype event = Send string "jsval option" | Receive LSPMessage | TimerFires nat

fun react :: "(nat \<Rightarrow> jsval \<Rightarrow> jsval list \<Rightarrow> bool) \<Rightarrow> client \<Rightarrow> event \<Rightarrow> client" where
  "react raises st (Send method params) = snd (sendRequest st method params)"
| "react raises st (Receive message) = snd (handleMessage raises st message)"
| "react raises st (TimerFires t) = timeoutFires st t"

definition run :: "(nat \<Rightarrow> jsval \<Rightarrow> jsval list \<Rightarrow> bool) \<Rightarrow> client \<Rightarrow> event list \<Rightarrow> client" where
  "run raises st events = foldl (react raises) st events"


text \<open>
  The outcomes with which the \<open>resolve\<close> and \<open>reject\<close> of promise \<open>p\<close> have been called, in
  order. The promise is settled by the first; it is settled exactly once, by these calls,
  when the list has one element.
\<close>

definition outcomes :: "client \<Rightarrow> nat \<Rightarrow> outcome list" where
  "outcomes st p = map snd (filter (\<lambda>s. fst s = p) (settled st))"

text \<open>
  The state of the correlator that \<open>sendRequest\<close>, \<open>handleMessage\<close> and the timers keep:
  the entries, promises and timers are older than the counters; two entries hold two
  promises; the timer of an entry is armed and is the timer of that id; an armed timer
  belongs to the entry of its id, with its promise. (\<open>restart\<close> does not keep the last
  part: it empties the table and leaves the timers armed.)
\<close>

definition correlator_ok :: "client \<Rightarrow> bool" where
  "correlator_ok st \<longleftrightarrow>
     (\<forall>i pc. responsePromises st i = Some pc \<longrightarrow>
        i < nextId st \<and> promise pc < nextPromise st \<and>
        (\<exists>tm. timers st (timeoutId pc) = Some tm \<and> timer_id tm = i))
   \<and> (\<forall>i j pc pc'. responsePromises st i = Some pc \<and> responsePromises st j = Some pc'
        \<and> promise pc = promise pc' \<longrightarrow> i = j)
   \<and> (\<forall>t tm. timers st t = Some tm \<longrightarrow>
        t < nextTimer st \<and>
        responsePromises st (timer_id tm) = Some \<lparr>promise = timer_promise tm, timeoutId = t\<rparr>)
   \<and> (\<forall>s \<in> set (settled st). fst s < nextPromise st)"



text \<open>
  What settling a call does, whichever closure does it: the entry of id \<open>i\<close> leaves the table,
  its timer is gone, and the promise's \<open>resolve\<close> or \<open>reject\<close> is called with \<open>oc\<close>.
\<close>

definition finish :: "client \<Rightarrow> nat \<Rightarrow> PendingCall \<Rightarrow> outcome \<Rightarrow> client" where
  "finish st i pc oc =
     st\<lparr>timers := (timers st)(timeoutId pc := None),
        settled := settled st @ [(promise pc, oc)],
        responsePromises := (responsePromises st)(i := None)\<rparr>"

text \<open>The outcome \<open>handleMessage\<close> settles a call with, read off the response.\<close>

definition response_outcome :: "LSPMessage \<Rightarrow> outcome" where
  "response_outcome message =
     (case msg_error message of
        Some e \<Rightarrow> if truthy e then Rejected (ServerError e) else Resolved (msg_result message)
      | None \<Rightarrow> Resolved (msg_result message))"

text \<open>
  An example of \<open>path.resolve\<close>, and the client after \<open>initialize\<close> has sent its request and,
  before any answer, \<open>restart\<close> (with no root directory) has run.
\<close>

definition resolve_example :: "string \<Rightarrow> string" where
  "resolve_example rootDirectory = ''/work''"


subsection \<open>The frame decoder\<close>

text \<open>
  \<open>handleData\<close> keeps the text received so far in \<open>buffer\<close>, a JavaScript string. The chunk
  it is given is a \<open>Buffer\<close> of bytes; \<open>data.toString()\<close> decodes it as UTF-8, and is a
  parameter of the model, as is \<open>JSON.parse\<close> (\<open>None\<close> when it throws). A byte below 0x80 is
  decoded to the character with that code, so on ASCII data \<open>toString\<close> is the identity.
  Lengths and indices of the buffer count characters of the string.
\<close>

type_synonym byte = char

definition MAX_BUFFER_SIZE :: nat where
  "MAX_BUFFER_SIZE = 10 * 1024 * 1024"

definition CRLF :: string where
  "CRLF = [CHR 0x0D, CHR 0x0A]"

text \<open>\<open>\d\<close> of a regular expression without the unicode flag: the ten ASCII digits.\<close>

definition isDigit :: "char \<Rightarrow> bool" where
  "isDigit c \<longleftrightarrow> c \<in> set ''0123456789''"

text \<open>
  \<open>parseInt(s, 10)\<close> on a non-empty string of digits. A JavaScript number is a double and
  rounds above \<open>2^53\<close>; the decoder only compares the length with \<open>MAX_BUFFER_SIZE\<close> and
  adds it to an index of \<open>substring\<close>, which stops at the end of the string, so the exact
  value decides the same way.
\<close>

definition parseInt :: "string \<Rightarrow> nat" where
  "parseInt s = foldl (\<lambda>n c. 10 * n + (of_char c - 48)) 0 s"

text \<open>
  \<open>this.buffer.match(/^Content-Length: (\d+)\r\n\r\n/)\<close>: the header must start the
  buffer; the digits are all the digits that follow the name (the group is greedy and what
  follows is not a digit). The result is \<open>parseInt(headerMatch[1], 10)\<close> and
  \<open>headerMatch[0].length\<close>.
\<close>

definition header_name :: string where
  "header_name = ''Content-Length: ''"

definition header_end :: string where
  "header_end = CRLF @ CRLF"

definition headerMatch :: "string \<Rightarrow> (nat \<times> nat) option" where
  "headerMatch buf =
     (let name = header_name;
          rest = drop (length name) buf;
          digits = takeWhile isDigit rest;
          after = drop (length digits) rest
      in if take (length name) buf = name \<and> digits \<noteq> [] \<and> take 4 after = header_end
         then Some (parseInt digits, length name + length digits + 4)
         else None)"

text \<open>\<open>content.lastIndexOf(c)\<close>; \<open>None\<close> is \<open>-1\<close>.\<close>

definition lastIndexOf :: "char \<Rightarrow> string \<Rightarrow> nat option" where
  "lastIndexOf c s =
     (if c \<in> set s then Some (length s - 1 - length (takeWhile (\<lambda>x. x \<noteq> c) (rev s)))
      else None)"

text \<open>
  What one turn of the loop yields: a message pushed on the queue, or one of the three
  \<open>logError\<close> lines (the payload did not parse; a frame with a declared length above the
  maximum was skipped; the buffer was cut to the maximum).
\<close>

datatype decoded = Parsed LSPMessage | ParseFailed | Skipped nat | Truncated

text \<open>
  The \<open>while (true)\<close> loop of \<open>handleData\<close> on the buffer: what it yields, in order, and
  the buffer it leaves.
\<close>

function processBuffer :: "(string \<Rightarrow> LSPMessage option) \<Rightarrow> string \<Rightarrow> decoded list \<times> string" where
  "processBuffer parse buf =
     (case headerMatch buf of
        None \<Rightarrow> ([], buf)
      | Some (contentLength, headerEnd) \<Rightarrow>
          if contentLength > MAX_BUFFER_SIZE then
            (case processBuffer parse (drop (headerEnd + contentLength) buf) of
               (ds, rest) \<Rightarrow> (Skipped contentLength # ds, rest))
          else if length buf < headerEnd + contentLength then ([], buf)
          else
            let content = take contentLength (drop headerEnd buf);
                consumed =
                  (if content = [] \<or> last content \<noteq> CHR ''}'' then
                     (case lastIndexOf (CHR ''}'') content of
                        Some lastBraceIndex \<Rightarrow> lastBraceIndex + 1
                      | None \<Rightarrow> contentLength)
                   else contentLength);
                content' =
                  (if content = [] \<or> last content \<noteq> CHR ''}'' then
                     (case lastIndexOf (CHR ''}'') content of
                        Some lastBraceIndex \<Rightarrow> take (lastBraceIndex + 1) content
                      | None \<Rightarrow> content)
                   else content);
                d = (case parse content' of Some message \<Rightarrow> Parsed message | None \<Rightarrow> ParseFailed)
            in (case processBuffer parse (drop (headerEnd + consumed) buf) of
                  (ds, rest) \<Rightarrow> (d # ds, rest)))"
  by pat_completeness auto
termination processBuffer
proof (relation "measure (\<lambda>(parse, buf). length buf)", goal_cases)
  case 1
  show ?case by simp
next
  case (2 parse buf x2 contentLength headerEnd)
  then have m: "headerMatch buf = Some (contentLength, headerEnd)" by simp
  let ?digits = "takeWhile isDigit (drop (length header_name) buf)"
  from m have "take 4 (drop (length ?digits) (drop (length header_name) buf)) = header_end"
    and he: "headerEnd = length header_name + length ?digits + 4"
    by (simp_all add: headerMatch_def Let_def split: if_splits)
  then have "length (take 4 (drop (length ?digits) (drop (length header_name) buf))) = 4"
    by (simp add: header_end_def CRLF_def)
  then have "headerEnd \<le> length buf" using he by simp
  then show ?case using he by auto
next
  case (3 parse buf x2 contentLength headerEnd content consumed content' d)
  then have m: "headerMatch buf = Some (contentLength, headerEnd)" by simp
  let ?digits = "takeWhile isDigit (drop (length header_name) buf)"
  from m have "take 4 (drop (length ?digits) (drop (length header_name) buf)) = header_end"
    and he: "headerEnd = length header_name + length ?digits + 4"
    by (simp_all add: headerMatch_def Let_def split: if_splits)
  then have "length (take 4 (drop (length ?digits) (drop (length header_name) buf))) = 4"
    by (simp add: header_end_def CRLF_def)
  then have "headerEnd \<le> length buf" using he by simp
  then show ?case using he by auto
qed

declare processBuffer.simps [simp del]

text \<open>
  \<open>handleData\<close> up to the end of its loop, as a function of the buffer: the chunk is
  appended, a buffer longer than the maximum keeps its last \<open>MAX_BUFFER_SIZE\<close> characters,
  and the loop runs.
\<close>

definition receive ::
  "(string \<Rightarrow> LSPMessage option) \<Rightarrow> (byte list \<Rightarrow> string) \<Rightarrow> string \<Rightarrow> byte list
     \<Rightarrow> decoded list \<times> string"
where
  "receive parse toString buf data =
     (let appended = buf @ toString data in
      if length appended > MAX_BUFFER_SIZE
      then
        (case processBuffer parse (drop (length appended - MAX_BUFFER_SIZE) appended) of
           (ds, rest) \<Rightarrow> (Truncated # ds, rest))
      else processBuffer parse appended)"

text \<open>
  The effects of what the loop yields on the client: a message is pushed on
  \<open>messageQueue\<close> and \<open>processMessageQueue\<close> is called; the other three are log lines. The
  call of \<open>processMessageQueue\<close> does not read or write the buffer and the loop reads and
  writes nothing else, so the loop is run first and its effects are applied after. The
  first component says whether a call of \<open>processMessageQueue\<close> made in this
  \<open>handleData\<close> is suspended, and on what.
\<close>

fun deliver ::
  "(nat \<Rightarrow> jsval \<Rightarrow> jsval list \<Rightarrow> bool) \<Rightarrow> decoded list \<Rightarrow> error option option \<times> client
     \<Rightarrow> error option option \<times> client"
where
  "deliver raises [] (w, st) = (w, st)"
| "deliver raises (Parsed message # ds) (w, st) =
     (case processMessageQueue_begin raises (st\<lparr>messageQueue := messageQueue st @ [message]\<rparr>) of
        (None, st1) \<Rightarrow> deliver raises ds (w, st1)
      | (Some e, st1) \<Rightarrow> deliver raises ds (Some e, st1))"
| "deliver raises (ParseFailed # ds) (w, st) =
     deliver raises ds (w, log Error ''Failed to parse LSP message:'' st)"
| "deliver raises (Skipped contentLength # ds) (w, st) =
     deliver raises ds
       (w, log Error ''Received message with content length exceeds maximum size, skipping'' st)"
| "deliver raises (Truncated # ds) (w, st) =
     deliver raises ds
       (w, log Error ''Buffer size exceeded, clearing buffer to prevent memory issues'' st)"

text \<open>
  \<open>handleData\<close>, together with the rest of the call of \<open>processMessageQueue\<close> it left
  suspended, which runs as soon as \<open>handleData\<close> has returned (the listener is called once
  for a chunk read from the pipe, in a turn of the event loop of its own). Nothing awaits
  the promise of that call: an error it is rejected with reaches no code of the client.
\<close>

definition handleData ::
  "(nat \<Rightarrow> jsval \<Rightarrow> jsval list \<Rightarrow> bool) \<Rightarrow> (string \<Rightarrow> LSPMessage option) \<Rightarrow> (byte list \<Rightarrow> string)
     \<Rightarrow> client \<Rightarrow> byte list \<Rightarrow> client"
where
  "handleData raises parse toString st data =
     (case receive parse toString (buffer st) data of
        (ds, rest) \<Rightarrow>
          (case deliver raises ds (None, st\<lparr>buffer := rest\<rparr>) of
             (None, st1) \<Rightarrow> st1
           | (Some e, st1) \<Rightarrow> snd (processMessageQueue_resume raises e st1)))"

text \<open>
  The decoder over the chunks of a stream, from a given buffer: everything the calls of
  \<open>handleData\<close> yield, in order, and the buffer left after the last chunk.
\<close>

fun decodeChunks ::
  "(string \<Rightarrow> LSPMessage option) \<Rightarrow> (byte list \<Rightarrow> string) \<Rightarrow> string \<Rightarrow> byte list list
     \<Rightarrow> decoded list \<times> string"
where
  "decodeChunks parse toString buf [] = ([], buf)"
| "decodeChunks parse toString buf (data # chunks) =
     (case receive parse toString buf data of
        (ds, rest) \<Rightarrow>
          (case decodeChunks parse toString rest chunks of
             (ds', rest') \<Rightarrow> (ds @ ds', rest')))"

text \<open>The messages among what the decoder yields: those pushed on the queue.\<close>

fun messages :: "decoded list \<Rightarrow> LSPMessage list" where
  "messages [] = []"
| "messages (Parsed message # ds) = message # messages ds"
| "messages (d # ds) = messages ds"

text \<open>
  A frame on the wire: the header with the decimal digits of the length, a blank line,
  the payload. A frame is taken as a triple of the digits, the payload and the message the
  payload encodes.
\<close>

definition frame :: "string \<times> string \<times> LSPMessage \<Rightarrow> string" where
  "frame f = (case f of (digits, payload, message) \<Rightarrow> header_name @ digits @ header_end @ payload)"

text \<open>
  A frame the decoder is sure to decode: the digits are digits and give the length of the
  payload, the payload ends with a closing brace and \<open>JSON.parse\<close> turns it into the
  message.
\<close>

definition valid_frame :: "(string \<Rightarrow> LSPMessage option) \<Rightarrow> string \<times> string \<times> LSPMessage \<Rightarrow> bool" where
  "valid_frame parse f =
     (case f of (digits, payload, message) \<Rightarrow>
        digits \<noteq> [] \<and> list_all isDigit digits \<and> parseInt digits = length payload
        \<and> payload \<noteq> [] \<and> last payload = CHR ''}'' \<and> parse payload = Some message)"

text \<open>
  For the examples: \<open>toString\<close> on ASCII data, and a stand-in for \<open>JSON.parse\<close> that takes
  a text in braces for a notification carrying that text and fails on any other text.
\<close>

definition ascii_toString :: "byte list \<Rightarrow> string" where
  "ascii_toString data = data"

definition parse_example :: "string \<Rightarrow> LSPMessage option" where
  "parse_example s =
     (if s \<noteq> [] \<and> hd s = CHR ''{'' \<and> last s = CHR ''}''
      then Some (notification ''example'' (JStr s))
      else None)"

text \<open>Frames that are valid and, header included, no longer than the maximum.\<close>

definition good_frames :: "(string \<Rightarrow> LSPMessage option) \<Rightarrow> (string \<times> string \<times> LSPMessage) list \<Rightarrow> bool" where
  "good_frames parse fs \<longleftrightarrow>
     (\<forall>f \<in> set fs. valid_frame parse f \<and> length (frame f) \<le> MAX_BUFFER_SIZE)"

text \<open>
  Example frames: a response of 38 bytes, an empty object, and a frame whose payload of
  10485761 bytes (an opening brace and \<open>big_tail\<close>) is one byte longer than the maximum.
\<close>

definition response_payload :: string where
  \<open>response_payload = ''{"jsonrpc":"2.0","id":1,"result":null}''\<close>

definition response_frame :: "string \<times> string \<times> LSPMessage" where
  "response_frame = (''38'', response_payload, notification ''example'' (JStr response_payload))"

definition empty_frame :: "string \<times> string \<times> LSPMessage" where
  "empty_frame = (''2'', ''{}'', notification ''example'' (JStr ''{}''))"

definition big_tail :: string where
  \<open>big_tail = ''"a":"'' @ replicate 10485753 (CHR ''a'') @ ''"}''\<close>

definition big_payload :: string where
  "big_payload = CHR ''{'' # big_tail"

definition big_frame :: "string \<times> string \<times> LSPMessage" where
  "big_frame = (''10485761'', big_payload, notification ''example'' (JStr big_payload))"

text \<open>
  The two frames cut into five chunks: inside the name of the first header, inside the
  first payload, inside the blank line of the second header, and inside the second payload.
\<close>

definition example_chunks :: "byte list list" where
  \<open>example_chunks =
     [''Content-Len'',
      ''gth: 38'' @ CRLF @ CRLF @ ''{"jsonrpc":"2.'',
      ''0","id":1,"result":null}Content-Length: 2'' @ CRLF,
      CRLF @ ''{'',
      ''}'']\<close>

text \<open>The header of the big frame together with the first byte of its payload.\<close>

definition big_head :: "byte list" where
  "big_head = header_name @ ''10485761'' @ header_end @ ''{''"

text \<open>
  \<open>Buffer.toString\<close> decodes UTF-8. For the examples: the decoding of data whose characters
  are below U+0100. A byte below 0x80 is the character with that code; the byte 0xC2 or
  0xC3 starts a character of two bytes, which is made of the two low bits of that byte and
  the six low bits of the byte that follows.
\<close>

definition twoByteCharacter :: "byte \<Rightarrow> byte \<Rightarrow> char" where
  "twoByteCharacter b c =
     (case (b, c) of
        (Char l0 l1 l2 l3 l4 l5 l6 l7, Char c0 c1 c2 c3 c4 c5 c6 c7) \<Rightarrow>
          Char c0 c1 c2 c3 c4 c5 l0 l1)"

fun utf8_toString :: "byte list \<Rightarrow> string" where
  "utf8_toString [] = []"
| "utf8_toString [b] = [b]"
| "utf8_toString (b # c # bs) =
     (if b = CHR 0xC2 \<or> b = CHR 0xC3
      then twoByteCharacter b c # utf8_toString bs
      else b # utf8_toString (c # bs))"

text \<open>
  A frame whose payload is an object with one string, the letter e with an acute accent
  (U+00E9). UTF-8 encodes the letter in the two bytes 0xC3 0xA9, so the payload has ten
  bytes, and the text \<open>toString\<close> makes of it has nine characters.
\<close>

definition accent_payload :: "byte list" where
  \<open>accent_payload = ''{"a":"'' @ [CHR 0xC3, CHR 0xA9] @ ''"}''\<close>

definition accent_text :: string where
  \<open>accent_text = ''{"a":"'' @ [CHR 0xE9] @ ''"}''\<close>

definition accent_frame :: "byte list" where
  "accent_frame = header_name @ ''10'' @ header_end @ accent_payload"

text \<open>
  A frame whose payload of four bytes is an empty object followed by a line break, which
  JSON allows after a value.
\<close>

definition padded_frame :: "byte list" where
  "padded_frame = header_name @ ''4'' @ header_end @ ''{}'' @ CRLF"



definition hover_client :: client where
  "hover_client = snd (sendRequest (startProcess new_client) ''textDocument/hover'' None)"

section \<open>Properties\<close>

subsection \<open>Sending and documents\<close>


lemma sendNotification_started:
  "process st \<noteq> None \<Longrightarrow>
   sendNotification st method params =
     st\<lparr>written := written st @
          [\<lparr>jsonrpc = ''2.0'', msg_id = None, msg_method = Some method,
            msg_params = params, msg_result = None, msg_error = None\<rparr>]\<rparr>"
  by (auto simp: sendNotification_def)

lemma changes_from:
  assumes "initialized st" and "process st \<noteq> None" and "uri \<in> set (openedDocuments st)"
      and "documentVersions st uri = Some v" and "0 < v"
  shows "\<exists>st'. openDocument_calls st uri edits = Inr st'
           \<and> documentVersions st' uri = Some (v + length edits)
           \<and> written st' = written st @
                map (\<lambda>(n, (c, l)). notification ''textDocument/didChange'' (didChangeParams uri n c))
                    (enumerate (Suc v) edits)"
  using assms
proof (induction edits arbitrary: st v)
  case Nil
  then show ?case by simp
next
  case (Cons e edits)
  obtain c l where e: "e = (c, l)" by (cases e)
  let ?st1 = "(sendNotification st ''textDocument/didChange'' (Some (didChangeParams uri (Suc v) c)))
                \<lparr>documentVersions := (documentVersions st)(uri \<mapsto> Suc v)\<rparr>"
  have step: "openDocument st uri c l = Inr ?st1"
    using Cons.prems by (simp add: openDocument_def sendNotification_started Let_def)
  have props: "initialized ?st1" "process ?st1 \<noteq> None" "uri \<in> set (openedDocuments ?st1)"
       "documentVersions ?st1 uri = Some (Suc v)" "0 < Suc v"
    using Cons.prems by (simp_all add: sendNotification_started)
  from Cons.IH[OF props] obtain st' where
    r: "openDocument_calls ?st1 uri edits = Inr st'"
       "documentVersions st' uri = Some (Suc v + length edits)"
       "written st' = written ?st1 @
                map (\<lambda>(n, (c, l)). notification ''textDocument/didChange'' (didChangeParams uri n c))
                    (enumerate (Suc (Suc v)) edits)"
    by blast
  have w: "written ?st1 = written st @ [notification ''textDocument/didChange'' (didChangeParams uri (Suc v) c)]"
    using Cons.prems by (simp add: sendNotification_started notification_def)
  show ?case
    using r step by (simp add: e w)
qed

text \<open>
  C6. In the Initialized state (the flag set, the process there), for a uri that is not
  open: a call of \<open>openDocument\<close> followed by N further calls on the same uri, each with its
  own text, succeeds; the version tracked for the uri is then 1 + N; the first call writes a
  \<open>textDocument/didOpen\<close> notification whose \<open>textDocument\<close> holds the uri, the language id,
  the version 1 and the text, and the N further calls write, in order,
  \<open>textDocument/didChange\<close> notifications whose \<open>textDocument\<close> holds the uri and the versions
  2, 3, ..., 1 + N and whose \<open>contentChanges\<close> is the one change that carries the whole new
  text. Nothing else is written.
\<close>

theorem openDocument_versioning:
  assumes "initialized st" and "process st \<noteq> None" and "uri \<notin> set (openedDocuments st)"
  shows "\<exists>st'. openDocument_calls st uri ((content, languageId) # edits) = Inr st'
           \<and> documentVersions st' uri = Some (1 + length edits)
           \<and> written st' = written st @
                \<lparr>jsonrpc = ''2.0'', msg_id = None, msg_method = Some ''textDocument/didOpen'',
                  msg_params = Some (JObj [(''textDocument'',
                     JObj [(''uri'', JStr uri), (''languageId'', JStr languageId),
                           (''version'', JNum 1), (''text'', JStr content)])]),
                  msg_result = None, msg_error = None\<rparr> #
                map (\<lambda>(n, (c, l)).
                       \<lparr>jsonrpc = ''2.0'', msg_id = None,
                         msg_method = Some ''textDocument/didChange'',
                         msg_params = Some (JObj [(''textDocument'',
                            JObj [(''uri'', JStr uri), (''version'', JNum (int n))]),
                           (''contentChanges'', JArr [JObj [(''text'', JStr c)]])]),
                         msg_result = None, msg_error = None\<rparr>)
                    (enumerate 2 edits)"
proof -
  let ?st1 = "(sendNotification st ''textDocument/didOpen'' (Some (didOpenParams uri languageId content)))
                \<lparr>openedDocuments := openedDocuments st @ [uri],
                  documentVersions := (documentVersions st)(uri \<mapsto> 1)\<rparr>"
  have step: "openDocument st uri content languageId = Inr ?st1"
    using assms by (simp add: openDocument_def sendNotification_started Let_def set_add_def)
  have props: "initialized ?st1" "process ?st1 \<noteq> None" "uri \<in> set (openedDocuments ?st1)"
       "documentVersions ?st1 uri = Some 1" "0 < (1::nat)"
    using assms by (simp_all add: sendNotification_started)
  from changes_from[OF props, of edits] obtain st' where
    r: "openDocument_calls ?st1 uri edits = Inr st'"
       "documentVersions st' uri = Some (1 + length edits)"
       "written st' = written ?st1 @
                map (\<lambda>(n, (c, l)). notification ''textDocument/didChange'' (didChangeParams uri n c))
                    (enumerate (Suc 1) edits)"
    by blast
  have w: "written (sendNotification st ''textDocument/didOpen''
                (Some (didOpenParams uri languageId content))) =
           written st @ [notification ''textDocument/didOpen'' (didOpenParams uri languageId content)]"
    using assms by (simp add: sendNotification_started notification_def)
  have "openDocument_calls st uri ((content, languageId) # edits) = Inr st'"
    using r(1) step by simp
  moreover have "written st' = written st @
                notification ''textDocument/didOpen'' (didOpenParams uri languageId content) #
                map (\<lambda>(n, (c, l)). notification ''textDocument/didChange'' (didChangeParams uri n c))
                    (enumerate 2 edits)"
    using r(3) by (simp add: w numeral_2_eq_2)
  ultimately show ?thesis
    using r(2) by (simp add: notification_def didOpenParams_def didChangeParams_def)
qed

theorem openDocument_versioning_witness:
  "initialized ready_client \<and> process ready_client \<noteq> None
   \<and> ''file:///a.txt'' \<notin> set (openedDocuments ready_client)
   \<and> (\<exists>st'. openDocument_calls ready_client ''file:///a.txt''
                [(''hello'', ''plaintext''), (''hello world'', ''plaintext'')] = Inr st'
           \<and> documentVersions st' ''file:///a.txt'' = Some 2
           \<and> written st' =
                [\<lparr>jsonrpc = ''2.0'', msg_id = None, msg_method = Some ''textDocument/didOpen'',
                   msg_params = Some (JObj [(''textDocument'',
                      JObj [(''uri'', JStr ''file:///a.txt''), (''languageId'', JStr ''plaintext''),
                            (''version'', JNum 1), (''text'', JStr ''hello'')])]),
                   msg_result = None, msg_error = None\<rparr>,
                 \<lparr>jsonrpc = ''2.0'', msg_id = None, msg_method = Some ''textDocument/didChange'',
                   msg_params = Some (JObj [(''textDocument'',
                      JObj [(''uri'', JStr ''file:///a.txt''), (''version'', JNum 2)]),
                     (''contentChanges'', JArr [JObj [(''text'', JStr ''hello world'')]])]),
                   msg_result = None, msg_error = None\<rparr>])"
  using openDocument_versioning[of ready_client "''file:///a.txt''" "''hello''" "''plaintext''"
          "[(''hello world'', ''plaintext'')]"]
  by (simp add: ready_client_def new_client_def numeral_2_eq_2)

text \<open>
  C10. \<open>initialize\<close> on a client that is already initialized returns at once: no await, no
  request or notification written, no field of the client changed.
\<close>

theorem initialize_when_initialized:
  "initialized st \<Longrightarrow> initialize_begin pid resolve st rootDirectory = (Completed, st)"
  by (simp add: initialize_begin_def)

theorem initialize_when_initialized_witness:
  "initialized ready_client \<and>
   initialize_begin 4242 (\<lambda>d. ''/home/user/project'') ready_client ''.'' = (Completed, ready_client)"
  using initialize_when_initialized[of ready_client 4242 "\<lambda>d. ''/home/user/project''" "''.''"]
  by (simp add: ready_client_def new_client_def)

subsection \<open>Runs of the lifecycle and the correlator\<close>

lemmas ev = initialize_begin_def restart_begin_def restart_reset_def startProcess_def
  sendRequest_def kill_process_def reset_state_def new_client_def log_def Let_def
  timeoutFires_def handleMessage_def handleResponse_def storeCapabilities_def
  handleNotification_def settle_def REQUEST_TIMEOUT_def response_def quiet_def
  shutdown_begin_def shutdown_resume_def sendNotification_def clearDiagnosticSubscribers_def
  ready_client_def openDocument_def set_add_def didCloseParams_def

text \<open>
  C3. The run that breaks the invariant across a restart. \<open>initialize\<close> sends request 1
  (promise 0, timer 0) and waits; \<open>restart\<close> replaces the process and resets the table and
  the id counter, and leaves timer 0 armed; a second \<open>initialize\<close> sends request 1 again
  (promise 1, timer 1). When timer 0 fires it finds id 1 in the table, deletes the entry
  of the new request and rejects the old promise. The response to the new request is then
  ignored and timer 1 finds nothing: promise 1 is never settled.
\<close>

theorem stale_timeout_removes_new_call:
  "(case initialize_begin 4242 resolve_example new_client ''.'' of (r1, s1) \<Rightarrow>
    case restart_begin 4242 resolve_example s1 None of (r2, s2) \<Rightarrow>
    case initialize_begin 4242 resolve_example s2 ''.'' of (r3, s3) \<Rightarrow>
      r1 = Awaiting 0 \<and> r2 = Completed \<and> r3 = Awaiting 1
      \<and> timers s3 0 = Some \<lparr>timer_id = 1, timer_method = ''initialize'', timer_promise = 0, delay = 10000\<rparr>
      \<and> responsePromises s3 1 = Some \<lparr>promise = 1, timeoutId = 1\<rparr>
      \<and> settled s3 = []
      \<and> responsePromises (timeoutFires s3 0) 1 = None
      \<and> settled (timeoutFires s3 0) = [(0, Rejected (TimeoutError ''initialize''))]
      \<and> settled (timeoutFires
            (snd (handleMessage quiet (timeoutFires s3 0)
                    (response 1 (JObj [(''capabilities'', JObj [])])))) 1)
          = [(0, Rejected (TimeoutError ''initialize''))])"
  by (simp add: ev)

text \<open>
  C4. \<open>shutdown\<close> on an initialized client whose \<open>shutdown\<close> request times out: the method
  returns normally (its \<open>catch\<close> logs the error and does not rethrow), and the client is
  still marked initialized.
\<close>

theorem shutdown_failure_not_propagated:
  "(case shutdown_begin ready_client of (r1, s1) \<Rightarrow>
      r1 = Awaiting 0
      \<and> settled (timeoutFires s1 0) = [(0, Rejected (TimeoutError ''shutdown''))]
      \<and> fst (shutdown_resume (timeoutFires s1 0) (Rejected (TimeoutError ''shutdown''))) = Completed
      \<and> initialized (snd (shutdown_resume (timeoutFires s1 0) (Rejected (TimeoutError ''shutdown'')))))"
  by (simp add: ev)

text \<open>
  C5. \<open>openDocument\<close> keeps the open set and the keys of the version map equal; a
  \<open>shutdown\<close> that succeeds then clears \<open>openedDocuments\<close> and leaves \<open>documentVersions\<close> as
  it was, so the two differ.
\<close>

theorem shutdown_keeps_versions:
  "(case openDocument ready_client ''file:///a.txt'' ''hello'' ''plaintext'' of
      Inl e \<Rightarrow> False
    | Inr s1 \<Rightarrow>
       (case shutdown_begin s1 of (r2, s2) \<Rightarrow>
        case shutdown_resume s2 (Resolved (Some JNull)) of (r3, s3) \<Rightarrow>
          set (openedDocuments s1) = dom (documentVersions s1)
          \<and> r2 = Awaiting 0 \<and> r3 = Completed \<and> \<not> initialized s3
          \<and> openedDocuments s3 = []
          \<and> documentVersions s3 ''file:///a.txt'' = Some 1
          \<and> set (openedDocuments s3) \<noteq> dom (documentVersions s3)))"
  by (simp add: ev)

subsection \<open>Diagnostics\<close>

lemma notify_each_store [simp]:
  "documentDiagnostics (notify_each raises cbs uri ds st) = documentDiagnostics st"
  by (induction cbs arbitrary: st) (simp_all add: Let_def log_def)

lemma notify_each_subscribers [simp]:
  "diagnosticSubscribers (notify_each raises cbs uri ds st) = diagnosticSubscribers st"
  by (induction cbs arbitrary: st) (simp_all add: Let_def log_def)

lemma notify_each_invoked:
  "invoked (notify_each raises cbs uri ds st) = invoked st @ map (\<lambda>cb. (cb, uri, ds)) cbs"
  by (induction cbs arbitrary: st) (simp_all add: Let_def log_def)

lemma short_lists_fit:
  "0 < MAX_SPREAD_ARGUMENTS" "\<not> MAX_SPREAD_ARGUMENTS < Suc (Suc 0)"
  by (simp_all add: MAX_SPREAD_ARGUMENTS_def)

lemma handleMessage_publish:
  assumes "uri \<noteq> []" and "JNull \<notin> set ds" and "length ds \<le> MAX_SPREAD_ARGUMENTS"
  shows "fst (handleMessage raises st (publishDiagnostics uri ds)) = None"
    and "documentDiagnostics (snd (handleMessage raises st (publishDiagnostics uri ds)))
           = map_set (JStr uri) ds (documentDiagnostics st)"
    and "invoked (snd (handleMessage raises st (publishDiagnostics uri ds)))
           = invoked st @ map (\<lambda>cb. (cb, JStr uri, ds)) (diagnosticSubscribers st)"
    and "diagnosticSubscribers (snd (handleMessage raises st (publishDiagnostics uri ds)))
           = diagnosticSubscribers st"
  using assms
  by (simp_all add: handleMessage_def handleResponse_def storeCapabilities_def
        handleNotification_def publishDiagnostics_def notification_def Let_def
        notifyDiagnosticUpdate_def notify_each_invoked log_def)

lemma filter_key_update:
  "distinct (map fst al) \<Longrightarrow>
   filter (\<lambda>kv. fst kv = k) (AList.update k v al) = [(k, v)]"
proof (induction al)
  case Nil
  then show ?case by simp
next
  case (Cons a al)
  obtain k' v' where a: "a = (k', v')" by (cases a)
  show ?case
  proof (cases "k' = k")
    case True
    with Cons.prems a have "k \<notin> fst ` set al" by simp
    then have "filter (\<lambda>kv. fst kv = k) al = []"
      by (auto simp: filter_empty_conv)
    with True a show ?thesis by simp
  next
    case False
    with Cons a show ?thesis by simp
  qed
qed

lemma deliver_stored_invoked:
  assumes "\<forall>(u, d) \<in> set al. u \<noteq> k \<longrightarrow> \<not> raises cb u d"
      and "distinct (map fst al)"
  shows "\<exists>ys. invoked (snd (deliver_stored raises cb al st)) = invoked st @ ys
            \<and> filter (\<lambda>c. fst (snd c) = k) ys =
                map (\<lambda>(u, d). (cb, u, d)) (filter (\<lambda>kv. fst kv = k) al)"
  using assms
proof (induction al arbitrary: st)
  case Nil
  then show ?case by simp
next
  case (Cons a al)
  obtain u d where a: "a = (u, d)" by (cases a)
  let ?st1 = "st\<lparr>invoked := invoked st @ [(cb, u, d)]\<rparr>"
  show ?case
  proof (cases "raises cb u d")
    case True
    with Cons.prems a have uk: "u = k" by auto
    with Cons.prems a have "k \<notin> fst ` set al" by simp
    then have "filter (\<lambda>kv. fst kv = k) al = []"
      by (auto simp: filter_empty_conv)
    with True a uk show ?thesis by (simp add: Let_def)
  next
    case False
    from Cons.prems a have p: "\<forall>(u, d) \<in> set al. u \<noteq> k \<longrightarrow> \<not> raises cb u d" "distinct (map fst al)"
      by simp_all
    from Cons.IH[OF p, of ?st1] obtain ys where
      ys: "invoked (snd (deliver_stored raises cb al ?st1)) = invoked ?st1 @ ys"
          "filter (\<lambda>c. fst (snd c) = k) ys = map (\<lambda>(u, d). (cb, u, d)) (filter (\<lambda>kv. fst kv = k) al)"
      by blast
    show ?thesis
      using False a ys by (simp add: Let_def)
  qed
qed

lemma distinct_map_set:
  "distinct (map fst al) \<Longrightarrow> distinct (map fst (map_set (JStr u) v al))"
  by (simp add: distinct_update)

text \<open>
  What holds of the store. Two \<open>textDocument/publishDiagnostics\<close> notifications for a uri,
  one after the other, each with a list of objects that is no longer than the engine's
  limit on arguments, are handled without error and leave exactly one entry for the uri in
  the store, holding the second list; \<open>getDiagnostics\<close> returns that list. A
  \<open>subscribeToDiagnostics\<close> made then, with a callback that does not throw on the entries of
  other documents, calls the callback exactly once for the uri, with the second list.
  \<open>getDiagnostics\<close> of a uri with no entry is the empty list and \<open>getAllDiagnostics\<close> of an
  empty store is empty. A uri is a non-empty string; the keys of the store are distinct,
  as those of a \<open>Map\<close> are.
\<close>

lemma publishDiagnostics_replaces:
  assumes "uri \<noteq> []"
      and "distinct (map fst (documentDiagnostics st))"
      and "\<forall>(u, d) \<in> set (documentDiagnostics st). u \<noteq> JStr uri \<longrightarrow> \<not> raises callback u d"
      and "length items1 \<le> MAX_SPREAD_ARGUMENTS" and "length items2 \<le> MAX_SPREAD_ARGUMENTS"
  shows "(\<exists>st1 st2 st3 ys.
            handleMessage raises st (publishDiagnostics uri (map JObj items1)) = (None, st1)
          \<and> handleMessage raises st1 (publishDiagnostics uri (map JObj items2)) = (None, st2)
          \<and> filter (\<lambda>kv. fst kv = JStr uri) (documentDiagnostics st2) = [(JStr uri, map JObj items2)]
          \<and> getDiagnostics st2 uri = map JObj items2
          \<and> snd (subscribeToDiagnostics raises st2 callback) = st3
          \<and> invoked st3 = invoked st2 @ ys
          \<and> filter (\<lambda>c. fst (snd c) = JStr uri) ys = [(callback, JStr uri, map JObj items2)])
       \<and> (map_of (documentDiagnostics st) (JStr other) = None \<longrightarrow> getDiagnostics st other = [])
       \<and> (documentDiagnostics st = [] \<longrightarrow> getAllDiagnostics st = [])"
proof -
  let ?d1 = "map JObj items1" and ?d2 = "map JObj items2"
  let ?k = "JStr uri"
  have n1: "JNull \<notin> set ?d1" and n2: "JNull \<notin> set ?d2" by auto
  have l1: "length ?d1 \<le> MAX_SPREAD_ARGUMENTS" and l2: "length ?d2 \<le> MAX_SPREAD_ARGUMENTS"
    using assms(4,5) by simp_all
  define st1 where "st1 = snd (handleMessage raises st (publishDiagnostics uri ?d1))"
  define st2 where "st2 = snd (handleMessage raises st1 (publishDiagnostics uri ?d2))"
  have h1: "handleMessage raises st (publishDiagnostics uri ?d1) = (None, st1)"
    using handleMessage_publish(1)[OF assms(1) n1 l1, of raises st]
    by (simp add: st1_def prod_eq_iff)
  have h2: "handleMessage raises st1 (publishDiagnostics uri ?d2) = (None, st2)"
    using handleMessage_publish(1)[OF assms(1) n2 l2, of raises st1]
    by (simp add: st2_def prod_eq_iff)
  have store2: "documentDiagnostics st2 =
                  AList.update ?k ?d2 (AList.update ?k ?d1 (documentDiagnostics st))"
    unfolding st2_def st1_def
    by (simp add: handleMessage_publish(2)[OF assms(1) n2 l2]
          handleMessage_publish(2)[OF assms(1) n1 l1])
  have dist1: "distinct (map fst (AList.update ?k ?d1 (documentDiagnostics st)))"
    using assms(2) by (simp add: distinct_update)
  have dist2: "distinct (map fst (documentDiagnostics st2))"
    unfolding store2 using dist1 by (rule distinct_update)
  have f2: "filter (\<lambda>kv. fst kv = ?k) (documentDiagnostics st2) = [(?k, ?d2)]"
    unfolding store2 by (rule filter_key_update[OF dist1])
  have g2: "getDiagnostics st2 uri = ?d2"
    unfolding getDiagnostics_def store2 by (simp add: update_conv')
  have others: "\<forall>(u, d) \<in> set (documentDiagnostics st2). u \<noteq> ?k \<longrightarrow> \<not> raises callback u d"
  proof (clarify)
    fix u d assume ud: "(u, d) \<in> set (documentDiagnostics st2)" and ne: "u \<noteq> ?k"
      and r: "raises callback u d"
    from ud have "map_of (documentDiagnostics st2) u = Some d"
      using dist2 by (rule_tac map_of_is_SomeI)
    then have "map_of (documentDiagnostics st) u = Some d"
      unfolding store2 using ne by (simp add: update_conv')
    then have "(u, d) \<in> set (documentDiagnostics st)" by (rule map_of_SomeD)
    with assms(3) ne r show False by auto
  qed
  let ?st2' = "st2\<lparr>diagnosticSubscribers := set_add callback (diagnosticSubscribers st2)\<rparr>"
  from deliver_stored_invoked[where raises = raises and cb = callback and k = ?k
         and al = "documentDiagnostics st2" and st = ?st2', OF others dist2] obtain ys where
    ys: "invoked (snd (deliver_stored raises callback (documentDiagnostics st2) ?st2')) = invoked ?st2' @ ys"
        "filter (\<lambda>c. fst (snd c) = ?k) ys =
           map (\<lambda>(u, d). (callback, u, d)) (filter (\<lambda>kv. fst kv = ?k) (documentDiagnostics st2))"
    by blast
  have sub: "invoked (snd (subscribeToDiagnostics raises st2 callback)) = invoked st2 @ ys"
    using ys(1) by (simp add: subscribeToDiagnostics_def Let_def)
  have once: "filter (\<lambda>c. fst (snd c) = ?k) ys = [(callback, ?k, ?d2)]"
    unfolding ys(2) f2 by simp
  have absent: "map_of (documentDiagnostics st) (JStr other) = None \<longrightarrow> getDiagnostics st other = []"
    by (simp add: getDiagnostics_def)
  have empty: "documentDiagnostics st = [] \<longrightarrow> getAllDiagnostics st = []"
    by (simp add: getAllDiagnostics_def)
  from h1 h2 f2 g2 sub once absent empty show ?thesis by blast
qed

lemma publishDiagnostics_replaces_example:
  "(let raises = raises_on (JStr ''file:///a.txt'');
        st2 = snd (handleMessage raises
                (snd (handleMessage raises stored_client
                   (publishDiagnostics ''file:///a.txt''
                      [JObj [(''severity'', JNum 2)], JObj [(''severity'', JNum 1)]])))
                (publishDiagnostics ''file:///a.txt'' [JObj [(''severity'', JNum 3)]]))
    in getDiagnostics st2 ''file:///a.txt'' = [JObj [(''severity'', JNum 3)]]
       \<and> filter (\<lambda>c. fst (snd c) = JStr ''file:///a.txt'')
             (invoked (snd (subscribeToDiagnostics raises st2 7)))
           = [(7, JStr ''file:///a.txt'', [JObj [(''severity'', JNum 3)]])])
   \<and> getDiagnostics stored_client ''file:///a.txt'' = []"
proof -
  let ?raises = "raises_on (JStr ''file:///a.txt'')"
  let ?d1 = "[JObj [(''severity'', JNum 2)], JObj [(''severity'', JNum 1)]]"
  let ?d2 = "[JObj [(''severity'', JNum 3)]]"
  have h1: "''file:///a.txt'' \<noteq> []" by simp
  have h2: "distinct (map fst (documentDiagnostics stored_client))"
    by (simp add: stored_client_def)
  have h3: "\<forall>(u, d) \<in> set (documentDiagnostics stored_client).
              u \<noteq> JStr ''file:///a.txt'' \<longrightarrow> \<not> ?raises 7 u d"
    by (simp add: stored_client_def raises_on_def)
  have l1: "length [[(''severity'', JNum 2)], [(''severity'', JNum 1)]] \<le> MAX_SPREAD_ARGUMENTS"
    and l2: "length [[(''severity'', JNum 3)]] \<le> MAX_SPREAD_ARGUMENTS"
    by (simp_all add: MAX_SPREAD_ARGUMENTS_def)
  have n: "JNull \<notin> set ?d1" "JNull \<notin> set ?d2" by simp_all
  have l: "length ?d1 \<le> MAX_SPREAD_ARGUMENTS" "length ?d2 \<le> MAX_SPREAD_ARGUMENTS"
    by (simp_all add: MAX_SPREAD_ARGUMENTS_def)
  define st1 where "st1 = snd (handleMessage ?raises stored_client (publishDiagnostics ''file:///a.txt'' ?d1))"
  define st2 where "st2 = snd (handleMessage ?raises st1 (publishDiagnostics ''file:///a.txt'' ?d2))"
  have inv0: "invoked stored_client = []" and sub0: "diagnosticSubscribers stored_client = []"
    by (simp_all add: stored_client_def ready_client_def new_client_def)
  have i1: "invoked st1 = []" and s1: "diagnosticSubscribers st1 = []"
    unfolding st1_def
    by (simp_all add: handleMessage_publish(3,4)[OF h1 n(1) l(1)] inv0 sub0)
  have i2: "invoked st2 = []"
    unfolding st2_def
    by (simp add: handleMessage_publish(3)[OF h1 n(2) l(2)] i1 s1)
  from publishDiagnostics_replaces[where raises = ?raises and callback = 7
         and st = stored_client and uri = "''file:///a.txt''"
         and ?items1.0 = "[[(''severity'', JNum 2)], [(''severity'', JNum 1)]]"
         and ?items2.0 = "[[(''severity'', JNum 3)]]" and other = "''file:///a.txt''",
         OF h1 h2 h3 l1 l2]
  obtain sa sb sc ys where r:
    "handleMessage ?raises stored_client (publishDiagnostics ''file:///a.txt'' ?d1) = (None, sa)"
    "handleMessage ?raises sa (publishDiagnostics ''file:///a.txt'' ?d2) = (None, sb)"
    "getDiagnostics sb ''file:///a.txt'' = ?d2"
    "snd (subscribeToDiagnostics ?raises sb 7) = sc"
    "invoked sc = invoked sb @ ys"
    "filter (\<lambda>c. fst (snd c) = JStr ''file:///a.txt'') ys = [(7, JStr ''file:///a.txt'', ?d2)]"
   and absent: "map_of (documentDiagnostics stored_client) (JStr ''file:///a.txt'') = None \<longrightarrow>
      getDiagnostics stored_client ''file:///a.txt'' = []"
    by auto
  have sa: "sa = st1" using r(1) by (simp add: st1_def)
  have sb: "sb = st2" using r(2) by (simp add: st2_def sa)
  have ab: "getDiagnostics stored_client ''file:///a.txt'' = []"
    using absent by (simp add: stored_client_def)
  show ?thesis
    using r(3-6) i2 ab
    by (simp add: Let_def sa sb st1_def[symmetric] st2_def[symmetric])
qed

text \<open>
  C8. The store holds diagnostics of two other documents; two
  \<open>textDocument/publishDiagnostics\<close> notifications for \<open>file:///a.txt\<close> are handled, and
  \<open>getDiagnostics\<close> returns the second list. A \<open>subscribeToDiagnostics\<close> made then, with a
  callback that throws on the entry of \<open>file:///b.txt\<close>, calls the callback on that entry,
  which comes first in the store, and throws: the callback is never called for
  \<open>file:///a.txt\<close>. Second run: after one notification for \<open>file:///a.txt\<close>, a second one
  whose list is longer than the engine's limit on arguments throws a RangeError before it
  is stored, and \<open>getDiagnostics\<close> still returns the first list.
\<close>

theorem subscribe_after_publish_not_delivered:
  "(case handleMessage (raises_on (JStr ''file:///b.txt'')) stored_client
           (publishDiagnostics ''file:///a.txt''
              [JObj [(''severity'', JNum 2)], JObj [(''severity'', JNum 1)]]) of (e1, s1) \<Rightarrow>
    case handleMessage (raises_on (JStr ''file:///b.txt'')) s1
           (publishDiagnostics ''file:///a.txt'' [JObj [(''severity'', JNum 3)]]) of (e2, s2) \<Rightarrow>
    case subscribeToDiagnostics (raises_on (JStr ''file:///b.txt'')) s2 7 of (e3, s3) \<Rightarrow>
      e1 = None \<and> e2 = None
      \<and> getDiagnostics s2 ''file:///a.txt'' = [JObj [(''severity'', JNum 3)]]
      \<and> e3 = Some (CallbackError 7)
      \<and> invoked s3 = [(7, JStr ''file:///b.txt'', [JObj [(''severity'', JNum 2)]])]
      \<and> filter (\<lambda>c. fst (snd c) = JStr ''file:///a.txt'') (invoked s3) = [])
   \<and> (case handleMessage quiet stored_client
             (publishDiagnostics ''file:///a.txt'' [JObj [(''severity'', JNum 2)]]) of (e1, s1) \<Rightarrow>
      case handleMessage quiet s1
             (publishDiagnostics ''file:///a.txt''
                (replicate (Suc MAX_SPREAD_ARGUMENTS) (JObj [(''severity'', JNum 1)]))) of (e2, s2) \<Rightarrow>
        e1 = None \<and> e2 = Some RangeError
        \<and> getDiagnostics s2 ''file:///a.txt'' = [JObj [(''severity'', JNum 2)]])"
  by (simp add: handleMessage_def handleResponse_def storeCapabilities_def
        handleNotification_def publishDiagnostics_def notification_def Let_def
        notifyDiagnosticUpdate_def log_def stored_client_def ready_client_def new_client_def
        subscribeToDiagnostics_def set_add_def raises_on_def getDiagnostics_def
        severityOr4_def short_lists_fit)

text \<open>
  C7. \<open>subscribeToDiagnostics\<close> with a callback that throws, on a client that holds
  diagnostics of two documents: the callback is added and called on the first entry, the
  exception leaves \<open>subscribeToDiagnostics\<close>, and the second entry is not delivered. In
  \<open>notifyDiagnosticUpdate\<close> every subscriber is called although each call throws.
\<close>

theorem subscribe_callback_failure_propagates:
  "fst (subscribeToDiagnostics throwing stored_client 7) = Some (CallbackError 7)
   \<and> invoked (snd (subscribeToDiagnostics throwing stored_client 7))
       = [(7, JStr ''file:///b.txt'', [JObj [(''severity'', JNum 2)]])]
   \<and> diagnosticSubscribers (snd (subscribeToDiagnostics throwing stored_client 7)) = [7]
   \<and> invoked (notifyDiagnosticUpdate throwing
                (stored_client\<lparr>diagnosticSubscribers := [7, 8]\<rparr>) (JStr ''file:///c.txt'') [])
       = [(7, JStr ''file:///c.txt'', []), (8, JStr ''file:///c.txt'', [])]"
  by (simp add: subscribeToDiagnostics_def stored_client_def ready_client_def new_client_def
        set_add_def throwing_def Let_def notifyDiagnosticUpdate_def log_def)

subsection \<open>The frame decoder\<close>

lemma length_header_name [simp]: "length header_name = 16"
  by (simp add: header_name_def)

lemma length_header_end [simp]: "length header_end = 4"
  by (simp add: header_end_def CRLF_def)

lemma takeWhile_digits:
  assumes "list_all isDigit digits"
  shows "takeWhile isDigit (digits @ header_end @ rest) = digits"
proof -
  have "takeWhile isDigit (header_end @ rest) = []"
    by (simp add: header_end_def CRLF_def isDigit_def)
  moreover have "\<And>x. x \<in> set digits \<Longrightarrow> isDigit x"
    using assms by (simp add: list_all_iff)
  ultimately show ?thesis by (simp add: takeWhile_append2)
qed

lemma headerMatch_frame:
  assumes "digits \<noteq> []" and "list_all isDigit digits"
  shows "headerMatch (header_name @ digits @ header_end @ rest)
           = Some (parseInt digits, 20 + length digits)"
  using assms by (simp add: headerMatch_def Let_def takeWhile_digits)

lemma processBuffer_no_header:
  "headerMatch buf = None \<Longrightarrow> processBuffer parse buf = ([], buf)"
  by (simp add: processBuffer.simps)

lemma processBuffer_incomplete:
  "headerMatch buf = Some (contentLength, headerEnd) \<Longrightarrow> contentLength \<le> MAX_BUFFER_SIZE
   \<Longrightarrow> length buf < headerEnd + contentLength \<Longrightarrow> processBuffer parse buf = ([], buf)"
  by (simp add: processBuffer.simps)

lemma processBuffer_skip:
  "headerMatch buf = Some (contentLength, headerEnd) \<Longrightarrow> MAX_BUFFER_SIZE < contentLength
   \<Longrightarrow> processBuffer parse buf =
       (Skipped contentLength # fst (processBuffer parse (drop (headerEnd + contentLength) buf)),
        snd (processBuffer parse (drop (headerEnd + contentLength) buf)))"
  by (simp add: processBuffer.simps[of parse buf] split: prod.splits)

lemma processBuffer_frame:
  assumes v: "valid_frame parse (digits, payload, message)"
      and le: "length payload \<le> MAX_BUFFER_SIZE"
  shows "processBuffer parse (frame (digits, payload, message) @ rest)
           = (Parsed message # fst (processBuffer parse rest), snd (processBuffer parse rest))"
proof -
  define buf where "buf = frame (digits, payload, message) @ rest"
  from v have d: "digits \<noteq> []" "list_all isDigit digits" "parseInt digits = length payload"
    and p: "payload \<noteq> []" "last payload = CHR ''}''" "parse payload = Some message"
    by (simp_all add: valid_frame_def)
  have buf: "buf = header_name @ digits @ header_end @ (payload @ rest)"
    by (simp add: buf_def frame_def)
  have hm: "headerMatch buf = Some (length payload, 20 + length digits)"
    unfolding buf using headerMatch_frame[OF d(1,2)] d(3) by simp
  have len: "\<not> length buf < 20 + length digits + length payload"
    unfolding buf by simp
  have content: "take (length payload) (drop (20 + length digits) buf) = payload"
    unfolding buf by simp
  have rest: "drop (20 + length digits + length payload) buf = rest"
    unfolding buf by simp
  have "processBuffer parse buf
           = (Parsed message # fst (processBuffer parse rest), snd (processBuffer parse rest))"
    apply (subst processBuffer.simps)
    apply (simp only: hm option.case prod.case)
    using le p len
    apply (simp add: Let_def content rest split: prod.splits)
    done
  then show ?thesis by (simp add: buf_def)
qed


lemma headerMatch_short:
  assumes "length b < 16"
  shows "headerMatch b = None"
proof -
  have "take (length header_name) b \<noteq> header_name"
  proof
    assume "take (length header_name) b = header_name"
    then have "length (take (length header_name) b) = length header_name" by simp
    with assms show False by simp
  qed
  then show ?thesis by (simp add: headerMatch_def Let_def)
qed

lemma headerMatch_digits_only:
  assumes "list_all isDigit us"
  shows "headerMatch (header_name @ us) = None"
proof -
  have tw: "takeWhile isDigit us = us"
    using assms by (simp add: list_all_iff takeWhile_eq_all_conv)
  show ?thesis
    by (simp add: headerMatch_def Let_def header_end_def CRLF_def tw)
qed

lemma headerMatch_end_cut:
  assumes d: "list_all isDigit digits" and vs: "header_end = vs @ ws" "vs \<noteq> []" "ws \<noteq> []"
  shows "headerMatch (header_name @ digits @ vs) = None"
proof -
  from vs have "hd vs = CHR 0x0D"
    by (cases vs) (auto simp: header_end_def CRLF_def Cons_eq_append_conv)
  with vs(2) have "takeWhile isDigit vs = []"
    by (cases vs) (auto simp: isDigit_def)
  moreover have "\<And>x. x \<in> set digits \<Longrightarrow> isDigit x"
    using d by (simp add: list_all_iff)
  ultimately have tw: "takeWhile isDigit (digits @ vs) = digits"
    by (simp add: takeWhile_append2)
  have "length vs < 4"
    using vs(1,3) length_header_end by (metis length_append length_greater_0_conv less_add_same_cancel1)
  then have "take 4 vs \<noteq> header_end"
    using length_header_end by (metis length_take min.strict_order_iff nat_neq_iff take_all_iff
        linorder_not_less)
  then show ?thesis
    by (simp add: headerMatch_def Let_def tw)
qed


lemma list_all_prefix: "list_all P (xs @ ys) \<Longrightarrow> list_all P xs"
  by simp

lemma processBuffer_partial:
  assumes v: "valid_frame parse (digits, payload, message)"
      and le: "length payload \<le> MAX_BUFFER_SIZE"
      and cut: "frame (digits, payload, message) = b @ z" and z: "z \<noteq> []"
  shows "processBuffer parse b = ([], b)"
proof -
  from v have d: "digits \<noteq> []" "list_all isDigit digits" "parseInt digits = length payload"
    by (simp_all add: valid_frame_def)
  from cut have eq: "b @ z = header_name @ digits @ header_end @ payload"
    by (simp add: frame_def)
  show ?thesis
  proof (cases "length b < 16")
    case True
    then show ?thesis by (simp add: processBuffer_no_header headerMatch_short)
  next
    case False
    from eq have "take 16 (b @ z) = header_name" by simp
    with False have b16: "take 16 b = header_name" by simp
    define us where "us = drop 16 b"
    have b: "b = header_name @ us"
      using b16 us_def by (metis append_take_drop_id)
    from eq b have eq1: "us @ z = digits @ header_end @ payload" by simp
    then consider
        (in_digits) ws where "digits = us @ ws"
      | (past_digits) vs where "us = digits @ vs" "vs \<noteq> []" "vs @ z = header_end @ payload"
      by (auto simp: append_eq_append_conv2) (metis append.right_neutral)+
    then show ?thesis
    proof cases
      case in_digits
      with d(2) have "list_all isDigit us" by simp
      then show ?thesis
        unfolding b by (simp add: processBuffer_no_header headerMatch_digits_only)
    next
      case past_digits
      from past_digits(3) consider
          (in_end) ws where "header_end = vs @ ws" "ws \<noteq> []"
        | (past_end) p' where "vs = header_end @ p'" "p' @ z = payload"
        by (auto simp: append_eq_append_conv2) (metis append.right_neutral)+
      then show ?thesis
      proof cases
        case in_end
        have "headerMatch (header_name @ digits @ vs) = None"
          by (rule headerMatch_end_cut[OF d(2) in_end(1) past_digits(2) in_end(2)])
        then show ?thesis
          unfolding b past_digits(1) by (simp add: processBuffer_no_header)
      next
        case past_end
        have b': "b = header_name @ digits @ header_end @ p'"
          by (simp add: b past_digits(1) past_end(1))
        have hm: "headerMatch b = Some (length payload, 20 + length digits)"
          unfolding b' using headerMatch_frame[OF d(1,2)] d(3) by simp
        have "length p' < length payload"
          using past_end(2) z by (metis length_append length_greater_0_conv less_add_same_cancel1)
        then have "length b < 20 + length digits + length payload"
          unfolding b' by simp
        with hm le show ?thesis
          by (simp add: processBuffer_incomplete)
      qed
    qed
  qed
qed


lemma processBuffer_Nil [simp]: "processBuffer parse [] = ([], [])"
  by (simp add: processBuffer_no_header headerMatch_short)

lemma payload_le_frame:
  "length (frame (digits, payload, message)) \<le> n \<Longrightarrow> length payload \<le> n"
  by (simp add: frame_def)

lemma frame_not_Nil [simp]: "frame f \<noteq> []"
  by (cases f) (simp add: frame_def header_name_def)

lemma good_frames_Cons:
  "good_frames parse (f # fs) \<longleftrightarrow>
     valid_frame parse f \<and> length (frame f) \<le> MAX_BUFFER_SIZE \<and> good_frames parse fs"
  by (auto simp: good_frames_def)

lemma processBuffer_good_frame:
  assumes "valid_frame parse f" and "length (frame f) \<le> MAX_BUFFER_SIZE"
  shows "processBuffer parse (frame f @ rest)
           = (Parsed (snd (snd f)) # fst (processBuffer parse rest), snd (processBuffer parse rest))"
proof -
  obtain digits payload message where f: "f = (digits, payload, message)"
    by (cases f) auto
  show ?thesis
    using assms processBuffer_frame[of parse digits payload message rest]
      payload_le_frame[of digits payload message MAX_BUFFER_SIZE]
    by (simp add: f)
qed

lemma processBuffer_good_partial:
  assumes "valid_frame parse f" and "length (frame f) \<le> MAX_BUFFER_SIZE"
      and "frame f = b @ z" and "z \<noteq> []"
  shows "processBuffer parse b = ([], b)"
proof -
  obtain digits payload message where f: "f = (digits, payload, message)"
    by (cases f) auto
  show ?thesis
    using assms processBuffer_partial[of parse digits payload message b z]
      payload_le_frame[of digits payload message MAX_BUFFER_SIZE]
    by (simp add: f)
qed

lemma processBuffer_stream:
  "good_frames parse fs \<Longrightarrow>
   processBuffer parse (concat (map frame fs)) = (map (\<lambda>f. Parsed (snd (snd f))) fs, [])"
  by (induction fs) (simp_all add: good_frames_Cons processBuffer_good_frame)

text \<open>Decoding a prefix of the stream and then the next piece is decoding both at once.\<close>

lemma processBuffer_incremental:
  assumes "good_frames parse fs" and "concat (map frame fs) = T @ c @ z"
  shows "fst (processBuffer parse (T @ c)) =
           fst (processBuffer parse T) @ fst (processBuffer parse (snd (processBuffer parse T) @ c))
       \<and> snd (processBuffer parse (T @ c)) =
           snd (processBuffer parse (snd (processBuffer parse T) @ c))"
  using assms
proof (induction fs arbitrary: T)
  case Nil
  then show ?case by simp
next
  case (Cons f fs)
  from Cons.prems(1) have f: "valid_frame parse f" "length (frame f) \<le> MAX_BUFFER_SIZE"
    and fs: "good_frames parse fs"
    by (simp_all add: good_frames_Cons)
  from Cons.prems(2) have "frame f @ concat (map frame fs) = T @ (c @ z)" by simp
  then consider
      (whole) us where "T = frame f @ us" "concat (map frame fs) = us @ c @ z"
    | (cut) us where "frame f = T @ us" "us \<noteq> []"
    by (auto simp: append_eq_append_conv2) (metis append.right_neutral)+
  then show ?case
  proof cases
    case whole
    from Cons.IH[OF fs whole(2)] show ?thesis
      by (simp add: whole(1) processBuffer_good_frame[OF f])
  next
    case cut
    have "processBuffer parse T = ([], T)"
      by (rule processBuffer_good_partial[OF f cut])
    then show ?thesis by simp
  qed
qed

text \<open>What the decoder leaves of a prefix of the stream is shorter than a frame.\<close>

lemma processBuffer_rest_short:
  assumes "good_frames parse fs" and "concat (map frame fs) = T @ z"
  shows "snd (processBuffer parse T) = [] \<or>
         (\<exists>f \<in> set fs. length (snd (processBuffer parse T)) < length (frame f))"
  using assms
proof (induction fs arbitrary: T)
  case Nil
  then show ?case by simp
next
  case (Cons f fs)
  from Cons.prems(1) have f: "valid_frame parse f" "length (frame f) \<le> MAX_BUFFER_SIZE"
    and fs: "good_frames parse fs"
    by (simp_all add: good_frames_Cons)
  from Cons.prems(2) have "frame f @ concat (map frame fs) = T @ z" by simp
  then consider
      (whole) us where "T = frame f @ us" "concat (map frame fs) = us @ z"
    | (cut) us where "frame f = T @ us" "us \<noteq> []"
    by (auto simp: append_eq_append_conv2) (metis append.right_neutral)+
  then show ?case
  proof cases
    case whole
    from Cons.IH[OF fs whole(2)] show ?thesis
      by (auto simp add: whole(1) processBuffer_good_frame[OF f])
  next
    case cut
    have "processBuffer parse T = ([], T)"
      by (rule processBuffer_good_partial[OF f cut])
    moreover have "length T < length (frame f)"
      using cut by simp
    ultimately show ?thesis by auto
  qed
qed

lemma decodeChunks_incremental:
  assumes "good_frames parse fs"
      and "\<forall>c \<in> set chunks. toString c = c"
      and "\<forall>f \<in> set fs. \<forall>c \<in> set chunks. length (frame f) + length c \<le> MAX_BUFFER_SIZE"
      and "concat (map frame fs) = T @ concat chunks @ z"
  shows "fst (processBuffer parse (T @ concat chunks)) =
           fst (processBuffer parse T) @
           fst (decodeChunks parse toString (snd (processBuffer parse T)) chunks)
       \<and> snd (processBuffer parse (T @ concat chunks)) =
           snd (decodeChunks parse toString (snd (processBuffer parse T)) chunks)"
  using assms(2-4)
proof (induction chunks arbitrary: T)
  case Nil
  then show ?case by simp
next
  case (Cons c chunks)
  let ?R = "snd (processBuffer parse T)"
  from Cons.prems(1) have c: "toString c = c" and cs: "\<forall>c \<in> set chunks. toString c = c"
    by simp_all
  from Cons.prems(2) have capc: "\<forall>f \<in> set fs. length (frame f) + length c \<le> MAX_BUFFER_SIZE"
    and caps: "\<forall>f \<in> set fs. \<forall>c \<in> set chunks. length (frame f) + length c \<le> MAX_BUFFER_SIZE"
    by simp_all
  from Cons.prems(3) have st: "concat (map frame fs) = T @ c @ (concat chunks @ z)"
    and st': "concat (map frame fs) = (T @ c) @ concat chunks @ z"
    by simp_all
  have fits: "length (?R @ c) \<le> MAX_BUFFER_SIZE"
  proof (cases "fs = []")
    case True
    with st show ?thesis by simp
  next
    case False
    from processBuffer_rest_short[OF assms(1), of T "c @ concat chunks @ z"] st
    have "?R = [] \<or> (\<exists>f \<in> set fs. length ?R < length (frame f))" by simp
    then show ?thesis
    proof
      assume "?R = []"
      moreover from False obtain f where "f \<in> set fs" by (cases fs) auto
      ultimately show ?thesis using capc by fastforce
    next
      assume "\<exists>f \<in> set fs. length ?R < length (frame f)"
      then show ?thesis using capc by fastforce
    qed
  qed
  have rc: "receive parse toString ?R c = processBuffer parse (?R @ c)"
    using fits by (simp add: receive_def c Let_def)
  note inc = processBuffer_incremental[OF assms(1) st]
  note ih = Cons.IH[OF cs caps st']
  show ?case
    using inc ih by (simp add: rc split: prod.splits)
qed


text \<open>
  What the decoder gets right. The chunks are ASCII data (\<open>toString\<close> gives back the
  bytes) and their concatenation is the concatenation of N frames; each frame has a header
  whose digits give the length of its payload, a payload that ends with a closing brace
  and that \<open>JSON.parse\<close> turns into its message; and a frame and a chunk together are never
  longer than the maximum buffer size. Then the decoder, started on an empty buffer, yields
  exactly the N messages in order, whatever the chunk boundaries are, reports no error, and
  leaves the buffer empty.
\<close>

lemma decoder_emits_frames:
  assumes "\<forall>f \<in> set frames. valid_frame parse f"
      and "\<forall>c \<in> set chunks. toString c = c"
      and "concat chunks = concat (map frame frames)"
      and "\<forall>f \<in> set frames. \<forall>c \<in> set chunks. length (frame f) + length c \<le> MAX_BUFFER_SIZE"
  shows "decodeChunks parse toString [] chunks
           = (map (\<lambda>(digits, payload, message). Parsed message) frames, [])"
proof -
  have good: "good_frames parse frames"
  proof (cases "chunks = []")
    case True
    with assms(3) have "frames = []" by (cases frames) simp_all
    then show ?thesis by (simp add: good_frames_def)
  next
    case False
    then obtain c where "c \<in> set chunks" by (cases chunks) auto
    with assms(1,4) show ?thesis by (fastforce simp: good_frames_def)
  qed
  have st: "concat (map frame frames) = [] @ concat chunks @ []"
    using assms(3) by simp
  from decodeChunks_incremental[OF good assms(2) assms(4) st]
  have "fst (processBuffer parse (concat chunks)) = fst (decodeChunks parse toString [] chunks)"
       "snd (processBuffer parse (concat chunks)) = snd (decodeChunks parse toString [] chunks)"
    by simp_all
  then have "decodeChunks parse toString [] chunks = processBuffer parse (concat (map frame frames))"
    by (simp add: assms(3) prod_eq_iff)
  also have "\<dots> = (map (\<lambda>f. Parsed (snd (snd f))) frames, [])"
    by (rule processBuffer_stream[OF good])
  also have "map (\<lambda>f. Parsed (snd (snd f))) frames
               = map (\<lambda>(digits, payload, message). Parsed message) frames"
    by (simp add: case_prod_beta)
  finally show ?thesis .
qed

lemma valid_response_frame: "valid_frame parse_example response_frame"
  by (simp add: valid_frame_def response_frame_def response_payload_def parseInt_def
        isDigit_def parse_example_def)

lemma valid_empty_frame: "valid_frame parse_example empty_frame"
  by (simp add: valid_frame_def empty_frame_def parseInt_def isDigit_def parse_example_def)

lemma example_stream:
  "concat example_chunks = concat (map frame [response_frame, empty_frame])"
  by (simp add: example_chunks_def frame_def response_frame_def response_payload_def
        empty_frame_def header_name_def header_end_def CRLF_def)

lemma example_cap:
  "\<forall>f \<in> set [response_frame, empty_frame]. \<forall>c \<in> set example_chunks.
      length (frame f) + length c \<le> MAX_BUFFER_SIZE"
  by (simp add: example_chunks_def frame_def response_frame_def response_payload_def
        empty_frame_def CRLF_def MAX_BUFFER_SIZE_def)

lemma decoder_emits_example_frames:
  "valid_frame parse_example response_frame \<and> valid_frame parse_example empty_frame
   \<and> decodeChunks parse_example ascii_toString [] example_chunks
       = ([Parsed (notification ''example'' (JStr response_payload)),
           Parsed (notification ''example'' (JStr ''{}''))], [])"
proof -
  have v: "\<forall>f \<in> set [response_frame, empty_frame]. valid_frame parse_example f"
    by (simp add: valid_response_frame valid_empty_frame)
  have a: "\<forall>c \<in> set example_chunks. ascii_toString c = c"
    by (simp add: ascii_toString_def)
  from decoder_emits_frames[OF v a example_stream example_cap]
  have "decodeChunks parse_example ascii_toString [] example_chunks
       = ([Parsed (notification ''example'' (JStr response_payload)),
           Parsed (notification ''example'' (JStr ''{}''))], [])"
    by (simp add: response_frame_def empty_frame_def)
  with valid_response_frame valid_empty_frame show ?thesis by simp
qed

lemma headerMatch_other_start:
  assumes "buf \<noteq> []" and "hd buf \<noteq> CHR ''C''"
  shows "headerMatch buf = None"
proof -
  have "take (length header_name) buf \<noteq> header_name"
  proof
    assume e: "take (length header_name) buf = header_name"
    have "hd (take (length header_name) buf) = hd buf"
      using assms(1) by (cases buf) simp_all
    with e have "hd buf = hd header_name" by simp
    with assms(2) show False by (simp add: header_name_def)
  qed
  then show ?thesis by (simp add: headerMatch_def Let_def)
qed

lemma length_big_tail: "length big_tail = 10485760"
  by (simp add: big_tail_def)

lemma length_big_payload: "length big_payload = 10485761"
  by (simp add: big_payload_def length_big_tail)

lemma length_big_frame: "length (frame big_frame) = 10485789"
  by (simp add: frame_def big_frame_def length_big_payload)

lemma last_big_tail: "last big_tail = CHR ''}''"
  by (simp add: big_tail_def)

lemma big_tail_not_Nil: "big_tail \<noteq> []"
  by (simp add: big_tail_def)

lemma valid_big_frame: "valid_frame parse_example big_frame"
  using last_big_tail big_tail_not_Nil
  by (simp add: valid_frame_def big_frame_def length_big_payload parseInt_def isDigit_def
        parse_example_def) (simp add: big_payload_def)

lemma drop_big_frame: "drop 29 (frame big_frame) = big_tail"
  by (simp add: frame_def big_frame_def big_payload_def)

lemma processBuffer_big_tail: "processBuffer parse big_tail = ([], big_tail)"
proof -
  have "big_tail \<noteq> [] \<and> hd big_tail \<noteq> CHR ''C''"
    by (simp add: big_tail_def)
  then show ?thesis
    by (simp add: processBuffer_no_header headerMatch_other_start)
qed

text \<open>
  The bound on the buffer: the one chunk below is a valid frame with a payload of
  10485761 bytes. \<open>handleData\<close> cuts the buffer to its last 10485760 characters, which
  removes the header and the first byte of the payload; no header matches what is left,
  and no message is ever pushed.
\<close>

lemma oversize_frame_not_decoded:
  "valid_frame parse_example big_frame
   \<and> ascii_toString (frame big_frame) = frame big_frame
   \<and> decodeChunks parse_example ascii_toString [] [frame big_frame] = ([Truncated], big_tail)
   \<and> messages (fst (decodeChunks parse_example ascii_toString [] [frame big_frame])) = []"
proof -
  have rc: "receive parse_example ascii_toString [] (frame big_frame) = ([Truncated], big_tail)"
    by (simp add: receive_def ascii_toString_def Let_def length_big_frame MAX_BUFFER_SIZE_def
          drop_big_frame processBuffer_big_tail)
  then have "decodeChunks parse_example ascii_toString [] [frame big_frame]
       = ([Truncated], big_tail)"
    by simp
  with valid_big_frame show ?thesis by (simp add: ascii_toString_def)
qed


lemma skip_header:
  "processBuffer parse big_head = ([Skipped 10485761], [])"
proof -
  have d: "''10485761'' \<noteq> []" "list_all isDigit ''10485761''"
    by (simp_all add: isDigit_def)
  have n: "parseInt ''10485761'' = 10485761"
    by (simp add: parseInt_def)
  have hm: "headerMatch big_head = Some (10485761, 28)"
    unfolding big_head_def using headerMatch_frame[OF d, of "''{''"] by (simp add: n)
  have over: "MAX_BUFFER_SIZE < 10485761"
    by (simp add: MAX_BUFFER_SIZE_def)
  have gone: "drop (28 + 10485761) big_head = []"
    by (simp add: big_head_def)
  show ?thesis
    using processBuffer_skip[OF hm over, of parse] by (simp only: gone processBuffer_Nil fst_conv snd_conv)
qed

lemma drop_big_tail_start:
  "drop 23 big_tail @ frame empty_frame \<noteq> [] \<and> hd (drop 23 big_tail @ frame empty_frame) \<noteq> CHR ''C''"
  by (simp add: big_tail_def)

text \<open>
  C9. A frame whose header declares 10485761 bytes, followed by a small valid frame, in
  three chunks: the header with the first payload byte, the rest of the payload, the small
  frame. At the header the decoder logs and sets the buffer to
  \<open>substring(headerEnd + contentLength)\<close> of what has arrived, which is empty; the payload
  bytes that arrive later are not discarded: they stay at the head of the buffer, no header
  matches there, and the small frame behind them is never decoded (decoded on its own it
  yields its message).
\<close>

theorem oversize_payload_not_skipped:
  "concat [big_head, big_tail, frame empty_frame] = frame big_frame @ frame empty_frame
   \<and> decodeChunks parse_example ascii_toString [] [big_head, big_tail, frame empty_frame]
       = ([Skipped 10485761, Truncated], drop 23 big_tail @ frame empty_frame)
   \<and> processBuffer parse_example (frame empty_frame)
       = ([Parsed (notification ''example'' (JStr ''{}''))], [])"
proof -
  have s: "concat [big_head, big_tail, frame empty_frame] = frame big_frame @ frame empty_frame"
    by (simp add: frame_def big_frame_def big_payload_def big_head_def)
  have l1: "length big_head = 29"
    by (simp add: big_head_def)
  have r1: "receive parse_example ascii_toString [] big_head = ([Skipped 10485761], [])"
    by (simp add: receive_def ascii_toString_def Let_def MAX_BUFFER_SIZE_def skip_header l1)
  have r2: "receive parse_example ascii_toString [] big_tail = ([], big_tail)"
    by (simp add: receive_def ascii_toString_def Let_def MAX_BUFFER_SIZE_def length_big_tail
          processBuffer_big_tail)
  have l3: "length (frame empty_frame) = 23"
    by (simp add: frame_def empty_frame_def)
  have p3: "processBuffer parse_example (drop 23 big_tail @ frame empty_frame)
              = ([], drop 23 big_tail @ frame empty_frame)"
    using drop_big_tail_start by (simp add: processBuffer_no_header headerMatch_other_start)
  have r3: "receive parse_example ascii_toString big_tail (frame empty_frame)
              = ([Truncated], drop 23 big_tail @ frame empty_frame)"
    by (simp add: receive_def ascii_toString_def Let_def MAX_BUFFER_SIZE_def length_big_tail l3 p3)
  have d: "decodeChunks parse_example ascii_toString [] [big_head, big_tail, frame empty_frame]
       = ([Skipped 10485761, Truncated], drop 23 big_tail @ frame empty_frame)"
    by (simp add: r1 r2 r3)
  have e: "processBuffer parse_example (frame empty_frame)
       = ([Parsed (notification ''example'' (JStr ''{}''))], [])"
    using processBuffer_good_frame[OF valid_empty_frame, of "[]"]
    by (simp add: l3 MAX_BUFFER_SIZE_def) (simp add: empty_frame_def)
  from s d e show ?thesis by simp
qed

lemma processBuffer_padded:
  assumes "parse ''{}'' = Some m"
  shows "processBuffer parse (padded_frame @ rest) = ([Parsed m], CRLF @ rest)"
proof -
  define left where "left = CRLF @ rest"
  define padded where "padded = ''{}'' @ CRLF"
  define buf where "buf = header_name @ ''4'' @ header_end @ (padded @ rest)"
  have d: "''4'' \<noteq> []" "list_all isDigit ''4''"
    by (simp_all add: isDigit_def)
  have hm: "headerMatch buf = Some (4, 21)"
    unfolding buf_def using headerMatch_frame[OF d, of "padded @ rest"]
    by (simp add: parseInt_def)
  have l: "length padded = 4"
    by (simp add: padded_def CRLF_def)
  have len: "\<not> length buf < 21 + 4"
    by (simp add: buf_def l)
  have content: "take 4 (drop 21 buf) = padded"
    by (simp add: buf_def l)
  have p: "padded \<noteq> []" "last padded \<noteq> CHR ''}''"
    "lastIndexOf (CHR ''}'') padded = Some 1" "take (1 + 1) padded = ''{}''"
    by (simp_all add: padded_def lastIndexOf_def CRLF_def)
  have stuck: "processBuffer parse left = ([], left)"
  proof -
    have "left \<noteq> [] \<and> hd left \<noteq> CHR ''C''"
      by (simp add: left_def CRLF_def)
    then show ?thesis
      by (simp add: processBuffer_no_header headerMatch_other_start)
  qed
  have p': "take (Suc (Suc 0)) padded = ''{}''"
    by (simp add: padded_def)
  have left': "drop 23 buf = left"
    by (simp add: buf_def padded_def left_def)
  have four: "4 \<le> MAX_BUFFER_SIZE"
    by (simp add: MAX_BUFFER_SIZE_def)
  have "processBuffer parse buf = ([Parsed m], left)"
    apply (subst processBuffer.simps)
    apply (simp only: hm option.case prod.case)
    using len four
    apply (simp only: Let_def content p)
    apply (simp add: assms p' left' stuck)
    done
  then show ?thesis by (simp add: buf_def left_def padded_def padded_frame_def)
qed

lemma utf8_accent_frame:
  "utf8_toString accent_frame = header_name @ ''10'' @ header_end @ accent_text"
  by (simp add: accent_frame_def accent_payload_def accent_text_def header_name_def
        header_end_def CRLF_def twoByteCharacter_def)

lemma processBuffer_accent:
  "processBuffer parse (header_name @ ''10'' @ header_end @ accent_text)
     = ([], header_name @ ''10'' @ header_end @ accent_text)"
proof -
  have d: "''10'' \<noteq> []" "list_all isDigit ''10''"
    by (simp_all add: isDigit_def)
  have hm: "headerMatch (header_name @ ''10'' @ header_end @ accent_text) = Some (10, 22)"
    using headerMatch_frame[OF d, of accent_text] by (simp add: parseInt_def)
  have "length (header_name @ ''10'' @ header_end @ accent_text) < 22 + 10"
    by (simp add: accent_text_def)
  moreover have "10 \<le> MAX_BUFFER_SIZE"
    by (simp add: MAX_BUFFER_SIZE_def)
  ultimately show ?thesis
    using hm by (rule_tac processBuffer_incomplete)
qed

text \<open>
  C1. Two streams of valid frames of which the decoder does not emit every message.
  The first is one frame whose payload of ten bytes holds a letter that UTF-8 encodes in
  two bytes. The header counts bytes and the buffer counts characters: the payload is nine
  characters long, the decoder waits for a tenth, and the message is not emitted. The
  second is two frames in two chunks, the payload of the first being an empty object
  followed by a line break. The decoder cuts that payload at the closing brace, emits the
  message and leaves the line break at the head of the buffer; no header matches there,
  and the second frame, which decoded on its own yields its message, is not decoded.
\<close>

theorem valid_frames_not_decoded:
  "length accent_payload = 10
   \<and> parse_example (utf8_toString accent_payload)
       = Some (notification ''example'' (JStr accent_text))
   \<and> decodeChunks parse_example utf8_toString [] [accent_frame]
       = ([], header_name @ ''10'' @ header_end @ accent_text)
   \<and> messages (fst (decodeChunks parse_example utf8_toString [] [accent_frame])) = []
   \<and> decodeChunks parse_example ascii_toString [] [padded_frame, frame empty_frame]
       = ([Parsed (notification ''example'' (JStr ''{}''))], CRLF @ frame empty_frame)
   \<and> decodeChunks parse_example ascii_toString [] [frame empty_frame]
       = ([Parsed (notification ''example'' (JStr ''{}''))], [])"
proof -
  have a1: "length accent_payload = 10"
    by (simp add: accent_payload_def)
  have a2: "parse_example (utf8_toString accent_payload)
              = Some (notification ''example'' (JStr accent_text))"
    by (simp add: accent_payload_def accent_text_def parse_example_def twoByteCharacter_def)
  have la: "length (header_name @ ''10'' @ header_end @ accent_text) = 31"
    by (simp add: accent_text_def)
  have ra: "receive parse_example utf8_toString [] accent_frame
              = ([], header_name @ ''10'' @ header_end @ accent_text)"
    unfolding receive_def
    by (simp only: append_Nil utf8_accent_frame Let_def la processBuffer_accent)
       (simp add: MAX_BUFFER_SIZE_def)
  have a3: "decodeChunks parse_example utf8_toString [] [accent_frame]
       = ([], header_name @ ''10'' @ header_end @ accent_text)"
    by (simp add: ra)
  have e: "parse_example ''{}'' = Some (notification ''example'' (JStr ''{}''))"
    by (simp add: parse_example_def)
  have lp: "length padded_frame = 25"
    by (simp add: padded_frame_def CRLF_def)
  have rp: "receive parse_example ascii_toString [] padded_frame
              = ([Parsed (notification ''example'' (JStr ''{}''))], CRLF)"
    using processBuffer_padded[where parse = parse_example and rest = "[]", OF e]
    by (simp add: receive_def ascii_toString_def Let_def lp MAX_BUFFER_SIZE_def)
  have l3: "length (frame empty_frame) = 23"
    by (simp add: frame_def empty_frame_def)
  have stuck: "processBuffer parse_example (CRLF @ frame empty_frame)
                 = ([], CRLF @ frame empty_frame)"
  proof -
    have "CRLF @ frame empty_frame \<noteq> [] \<and> hd (CRLF @ frame empty_frame) \<noteq> CHR ''C''"
      by (simp add: CRLF_def)
    then show ?thesis
      by (simp add: processBuffer_no_header headerMatch_other_start)
  qed
  have rs: "receive parse_example ascii_toString CRLF (frame empty_frame)
              = ([], CRLF @ frame empty_frame)"
    by (simp add: receive_def ascii_toString_def Let_def l3 MAX_BUFFER_SIZE_def stuck)
       (simp add: CRLF_def)
  have b1: "decodeChunks parse_example ascii_toString [] [padded_frame, frame empty_frame]
       = ([Parsed (notification ''example'' (JStr ''{}''))], CRLF @ frame empty_frame)"
    by (simp add: rp rs)
  have pe: "processBuffer parse_example (frame empty_frame)
       = ([Parsed (notification ''example'' (JStr ''{}''))], [])"
    using processBuffer_good_frame[OF valid_empty_frame, of "[]"]
    by (simp add: l3 MAX_BUFFER_SIZE_def) (simp add: empty_frame_def)
  have re: "receive parse_example ascii_toString [] (frame empty_frame)
       = ([Parsed (notification ''example'' (JStr ''{}''))], [])"
    by (simp add: receive_def ascii_toString_def Let_def l3 MAX_BUFFER_SIZE_def pe)
  have b2: "decodeChunks parse_example ascii_toString [] [frame empty_frame]
       = ([Parsed (notification ''example'' (JStr ''{}''))], [])"
    by (simp add: re)
  from a1 a2 a3 b1 b2 show ?thesis by simp
qed

subsection \<open>Requests, responses and timeouts\<close>

lemma notify_each_corr [simp]:
  "responsePromises (notify_each raises cbs uri ds st) = responsePromises st"
  "timers (notify_each raises cbs uri ds st) = timers st"
  "settled (notify_each raises cbs uri ds st) = settled st"
  "nextId (notify_each raises cbs uri ds st) = nextId st"
  "nextTimer (notify_each raises cbs uri ds st) = nextTimer st"
  "nextPromise (notify_each raises cbs uri ds st) = nextPromise st"
  "process (notify_each raises cbs uri ds st) = process st"
  by (induction cbs arbitrary: st; simp add: Let_def log_def)+

lemma handleNotification_corr [simp]:
  "responsePromises (snd (handleNotification raises st m)) = responsePromises st"
  "timers (snd (handleNotification raises st m)) = timers st"
  "settled (snd (handleNotification raises st m)) = settled st"
  "nextId (snd (handleNotification raises st m)) = nextId st"
  "nextTimer (snd (handleNotification raises st m)) = nextTimer st"
  "nextPromise (snd (handleNotification raises st m)) = nextPromise st"
  "process (snd (handleNotification raises st m)) = process st"
  by (simp_all add: handleNotification_def notifyDiagnosticUpdate_def Let_def log_def
        split: option.splits jsval.splits)

lemma storeCapabilities_corr [simp]:
  "responsePromises (storeCapabilities st m) = responsePromises st"
  "timers (storeCapabilities st m) = timers st"
  "settled (storeCapabilities st m) = settled st"
  "nextId (storeCapabilities st m) = nextId st"
  "nextTimer (storeCapabilities st m) = nextTimer st"
  "nextPromise (storeCapabilities st m) = nextPromise st"
  "process (storeCapabilities st m) = process st"
  by (simp_all add: storeCapabilities_def split: option.splits)

lemma correlator_ok_cong:
  assumes "responsePromises st' = responsePromises st" "timers st' = timers st"
    "settled st' = settled st" "nextId st' = nextId st" "nextTimer st' = nextTimer st"
    "nextPromise st' = nextPromise st"
  shows "correlator_ok st' = correlator_ok st"
  by (simp add: correlator_ok_def assms)

lemma handleMessage_correlator_ok:
  "correlator_ok (snd (handleMessage raises st m)) = correlator_ok (handleResponse st m)"
  by (rule correlator_ok_cong) (simp_all add: handleMessage_def)

lemma correlator_ok_new: "correlator_ok new_client"
  by (simp add: correlator_ok_def new_client_def)


lemma sendRequest_started:
  "process st \<noteq> None \<Longrightarrow>
   sendRequest st method params =
     (nextPromise st,
      st\<lparr>nextId := Suc (nextId st),
         nextPromise := Suc (nextPromise st),
         nextTimer := Suc (nextTimer st),
         timers := (timers st)(nextTimer st \<mapsto>
            \<lparr>timer_id = nextId st, timer_method = method, timer_promise = nextPromise st,
              delay = REQUEST_TIMEOUT\<rparr>),
         responsePromises := (responsePromises st)(nextId st \<mapsto>
            \<lparr>promise = nextPromise st, timeoutId = nextTimer st\<rparr>),
         written := written st @
            [\<lparr>jsonrpc = ''2.0'', msg_id = Some (JNum (int (nextId st))),
              msg_method = Some method, msg_params = params,
              msg_result = None, msg_error = None\<rparr>]\<rparr>)"
  by (auto simp: sendRequest_def Let_def)

lemma sendRequest_correlator_ok:
  assumes "correlator_ok st"
  shows "correlator_ok (snd (sendRequest st method params))"
proof (cases "process st = None")
  case True
  with assms show ?thesis
    by (auto simp: correlator_ok_def sendRequest_def Let_def less_Suc_eq)
next
  case False
  let ?st = "snd (sendRequest st method params)"
  have rp: "responsePromises ?st =
              (responsePromises st)(nextId st \<mapsto> \<lparr>promise = nextPromise st, timeoutId = nextTimer st\<rparr>)"
   and tm: "timers ?st =
              (timers st)(nextTimer st \<mapsto> \<lparr>timer_id = nextId st, timer_method = method,
                 timer_promise = nextPromise st, delay = REQUEST_TIMEOUT\<rparr>)"
   and ctr: "nextId ?st = Suc (nextId st)" "nextTimer ?st = Suc (nextTimer st)"
            "nextPromise ?st = Suc (nextPromise st)"
   and se: "settled ?st = settled st"
    by (simp_all add: sendRequest_started[OF False])
  from assms have
    a1: "\<And>i pc. responsePromises st i = Some pc \<Longrightarrow>
           i < nextId st \<and> promise pc < nextPromise st \<and>
           (\<exists>tm. timers st (timeoutId pc) = Some tm \<and> timer_id tm = i)"
    and a2: "\<And>i j pc pc'. responsePromises st i = Some pc \<Longrightarrow> responsePromises st j = Some pc'
           \<Longrightarrow> promise pc = promise pc' \<Longrightarrow> i = j"
    and a3: "\<And>t tm. timers st t = Some tm \<Longrightarrow>
           t < nextTimer st \<and>
           responsePromises st (timer_id tm) = Some \<lparr>promise = timer_promise tm, timeoutId = t\<rparr>"
    and a4: "\<And>s. s \<in> set (settled st) \<Longrightarrow> fst s < nextPromise st"
    unfolding correlator_ok_def by blast+
  have fresh_id: "responsePromises st (nextId st) = None"
    using a1 by (cases "responsePromises st (nextId st)") auto
  have fresh_t: "timers st (nextTimer st) = None"
    using a3 by (cases "timers st (nextTimer st)") auto
  show ?thesis
    unfolding correlator_ok_def rp tm ctr se
  proof (intro conjI allI impI ballI)
    fix i pc
    assume "((responsePromises st)(nextId st \<mapsto> \<lparr>promise = nextPromise st, timeoutId = nextTimer st\<rparr>)) i = Some pc"
    then show "i < Suc (nextId st)" "promise pc < Suc (nextPromise st)"
      "\<exists>tma. ((timers st)(nextTimer st \<mapsto> \<lparr>timer_id = nextId st, timer_method = method,
                 timer_promise = nextPromise st, delay = REQUEST_TIMEOUT\<rparr>)) (timeoutId pc) = Some tma
             \<and> timer_id tma = i"
      using a1[of i pc] fresh_t by (auto split: if_splits simp: less_Suc_eq)
  next
    fix i j pc pc'
    assume "((responsePromises st)(nextId st \<mapsto> \<lparr>promise = nextPromise st, timeoutId = nextTimer st\<rparr>)) i = Some pc
          \<and> ((responsePromises st)(nextId st \<mapsto> \<lparr>promise = nextPromise st, timeoutId = nextTimer st\<rparr>)) j = Some pc'
          \<and> promise pc = promise pc'"
    then show "i = j"
      using a1[of i pc] a1[of j pc'] a2[of i pc j pc'] by (auto split: if_splits)
  next
    fix t tma
    assume "((timers st)(nextTimer st \<mapsto> \<lparr>timer_id = nextId st, timer_method = method,
                 timer_promise = nextPromise st, delay = REQUEST_TIMEOUT\<rparr>)) t = Some tma"
    then show "t < Suc (nextTimer st)"
      "((responsePromises st)(nextId st \<mapsto> \<lparr>promise = nextPromise st, timeoutId = nextTimer st\<rparr>)) (timer_id tma)
         = Some \<lparr>promise = timer_promise tma, timeoutId = t\<rparr>"
      using a3[of t tma] fresh_id by (auto split: if_splits simp: less_Suc_eq)
  next
    fix s assume "s \<in> set (settled st)"
    then show "fst s < Suc (nextPromise st)" using a4[of s] by simp
  qed
qed


lemma correlator_okD:
  assumes "correlator_ok st"
  shows "\<And>i pc. responsePromises st i = Some pc \<Longrightarrow>
           i < nextId st \<and> promise pc < nextPromise st \<and>
           (\<exists>tm. timers st (timeoutId pc) = Some tm \<and> timer_id tm = i)"
    and "\<And>i j pc pc'. responsePromises st i = Some pc \<Longrightarrow> responsePromises st j = Some pc'
           \<Longrightarrow> promise pc = promise pc' \<Longrightarrow> i = j"
    and "\<And>t tm. timers st t = Some tm \<Longrightarrow>
           t < nextTimer st \<and>
           responsePromises st (timer_id tm) = Some \<lparr>promise = timer_promise tm, timeoutId = t\<rparr>"
    and "\<And>s. s \<in> set (settled st) \<Longrightarrow> fst s < nextPromise st"
  using assms unfolding correlator_ok_def by blast+

lemma other_timer:
  assumes ok: "correlator_ok st"
      and i: "responsePromises st i = Some pc" and j: "responsePromises st j = Some pc'"
      and ne: "i \<noteq> j"
  shows "timeoutId pc \<noteq> timeoutId pc'"
proof
  assume eq: "timeoutId pc = timeoutId pc'"
  from correlator_okD(1)[OF ok i] obtain tm where "timers st (timeoutId pc) = Some tm" "timer_id tm = i"
    by blast
  moreover from correlator_okD(1)[OF ok j] obtain tm' where "timers st (timeoutId pc') = Some tm'" "timer_id tm' = j"
    by blast
  ultimately show False using eq ne by simp
qed

lemma finish_correlator_ok:
  assumes ok: "correlator_ok st" and i: "responsePromises st i = Some pc"
  shows "correlator_ok (finish st i pc oc)"
  unfolding correlator_ok_def
proof (intro conjI allI impI ballI)
  fix j pc'
  assume j: "responsePromises (finish st i pc oc) j = Some pc'"
  then have ji: "j \<noteq> i" and j': "responsePromises st j = Some pc'"
    by (auto simp: finish_def split: if_splits)
  from correlator_okD(1)[OF ok j'] obtain tm where
    tm: "j < nextId st" "promise pc' < nextPromise st" "timers st (timeoutId pc') = Some tm" "timer_id tm = j"
    by blast
  have "timeoutId pc' \<noteq> timeoutId pc"
    using other_timer[OF ok j' i ji] .
  with tm show "j < nextId (finish st i pc oc)" "promise pc' < nextPromise (finish st i pc oc)"
    "\<exists>tm. timers (finish st i pc oc) (timeoutId pc') = Some tm \<and> timer_id tm = j"
    by (simp_all add: finish_def)
next
  fix j k pc1 pc2
  assume "responsePromises (finish st i pc oc) j = Some pc1 \<and>
          responsePromises (finish st i pc oc) k = Some pc2 \<and> promise pc1 = promise pc2"
  then have "responsePromises st j = Some pc1" "responsePromises st k = Some pc2" "promise pc1 = promise pc2"
    by (auto simp: finish_def split: if_splits)
  then show "j = k" by (rule correlator_okD(2)[OF ok])
next
  fix t tm
  assume t: "timers (finish st i pc oc) t = Some tm"
  then have tne: "t \<noteq> timeoutId pc" and t': "timers st t = Some tm"
    by (auto simp: finish_def split: if_splits)
  from correlator_okD(3)[OF ok t'] have
    a: "t < nextTimer st"
       "responsePromises st (timer_id tm) = Some \<lparr>promise = timer_promise tm, timeoutId = t\<rparr>"
    by blast+
  have "timer_id tm \<noteq> i"
  proof
    assume "timer_id tm = i"
    with a(2) i have "pc = \<lparr>promise = timer_promise tm, timeoutId = t\<rparr>" by simp
    with tne show False by simp
  qed
  with a show "t < nextTimer (finish st i pc oc)"
    "responsePromises (finish st i pc oc) (timer_id tm) = Some \<lparr>promise = timer_promise tm, timeoutId = t\<rparr>"
    by (simp_all add: finish_def)
next
  fix s assume "s \<in> set (settled (finish st i pc oc))"
  then have "s \<in> set (settled st) \<or> s = (promise pc, oc)" by (auto simp: finish_def)
  moreover have "promise pc < nextPromise st" using correlator_okD(1)[OF ok i] by blast
  ultimately show "fst s < nextPromise (finish st i pc oc)"
    using correlator_okD(4)[OF ok, of s] by (auto simp: finish_def)
qed

lemma handleResponse_cases:
  "handleResponse st m = st \<or>
   (\<exists>i pc. Option.bind (msg_id m) id_key = Some i \<and> responsePromises st i = Some pc
       \<and> (defined (msg_result m) \<or> defined (msg_error m))
       \<and> handleResponse st m = finish st i pc (response_outcome m))"
  by (auto simp: handleResponse_def finish_def settle_def response_outcome_def Let_def
      split: option.splits)

lemma timeoutFires_cases:
  assumes ok: "correlator_ok st"
  shows "(timers st t = None \<and> timeoutFires st t = st) \<or>
         (\<exists>tm. timers st t = Some tm
            \<and> responsePromises st (timer_id tm) = Some \<lparr>promise = timer_promise tm, timeoutId = t\<rparr>
            \<and> timeoutFires st t =
                finish st (timer_id tm) \<lparr>promise = timer_promise tm, timeoutId = t\<rparr>
                  (Rejected (TimeoutError (timer_method tm))))"
proof (cases "timers st t")
  case None
  then show ?thesis by (simp add: timeoutFires_def)
next
  case (Some tm)
  from correlator_okD(3)[OF ok Some] have
    "responsePromises st (timer_id tm) = Some \<lparr>promise = timer_promise tm, timeoutId = t\<rparr>"
    by blast
  with Some show ?thesis by (simp add: timeoutFires_def finish_def Let_def)
qed

lemma handleMessage_corr [simp]:
  "responsePromises (snd (handleMessage raises st m)) = responsePromises (handleResponse st m)"
  "timers (snd (handleMessage raises st m)) = timers (handleResponse st m)"
  "settled (snd (handleMessage raises st m)) = settled (handleResponse st m)"
  "nextId (snd (handleMessage raises st m)) = nextId (handleResponse st m)"
  "nextTimer (snd (handleMessage raises st m)) = nextTimer (handleResponse st m)"
  "nextPromise (snd (handleMessage raises st m)) = nextPromise (handleResponse st m)"
  "process (snd (handleMessage raises st m)) = process (handleResponse st m)"
  by (simp_all add: handleMessage_def)

lemma react_correlator_ok:
  assumes ok: "correlator_ok st"
  shows "correlator_ok (react raises st e)"
proof (cases e)
  case (Send m1 ps1)
  then show ?thesis using sendRequest_correlator_ok[OF ok] by simp
next
  case (Receive m)
  have "correlator_ok (handleResponse st m)"
    using handleResponse_cases[of st m] finish_correlator_ok[OF ok] ok by auto
  then show ?thesis using Receive by (simp add: handleMessage_correlator_ok)
next
  case (TimerFires t)
  then show ?thesis
    using timeoutFires_cases[OF ok, of t] finish_correlator_ok[OF ok] ok by auto
qed

lemma run_correlator_ok:
  "correlator_ok st \<Longrightarrow> correlator_ok (run raises st events)"
  unfolding run_def
  by (induction events arbitrary: st) (simp_all add: react_correlator_ok)


lemma outcomes_finish:
  "outcomes (finish st j pc oc) p =
     (if promise pc = p then outcomes st p @ [oc] else outcomes st p)"
  by (simp add: outcomes_def finish_def)






















lemma hover_client_sent:
  "hover_client =
     new_client\<lparr>process := Some 0, spawned := 1, nextId := 2, nextPromise := 1, nextTimer := 1,
       timers := [0 \<mapsto> \<lparr>timer_id = 1, timer_method = ''textDocument/hover'',
                           timer_promise = 0, delay = REQUEST_TIMEOUT\<rparr>],
       responsePromises := [1 \<mapsto> \<lparr>promise = 0, timeoutId = 0\<rparr>],
       written := [\<lparr>jsonrpc = ''2.0'', msg_id = Some (JNum 1),
                    msg_method = Some ''textDocument/hover'', msg_params = None,
                    msg_result = None, msg_error = None\<rparr>]\<rparr>"
  by (simp add: hover_client_def sendRequest_def startProcess_def new_client_def Let_def)





subsection \<open>The client around the decoder, and the runs that succeed\<close>

lemma notify_each_buffer [simp]:
  "buffer (notify_each raises cbs uri ds st) = buffer st"
  by (induction cbs arbitrary: st) (simp_all add: Let_def log_def)

lemma handleMessage_buffer [simp]:
  "buffer (snd (handleMessage raises st m)) = buffer st"
proof -
  have r: "buffer (handleResponse st m) = buffer st"
    using handleResponse_cases[of st m] by (auto simp: finish_def)
  have c: "\<And>s. buffer (storeCapabilities s m) = buffer s"
    by (simp add: storeCapabilities_def split: option.splits)
  have n: "\<And>s. buffer (snd (handleNotification raises s m)) = buffer s"
    by (simp add: handleNotification_def notifyDiagnosticUpdate_def Let_def log_def
          split: option.splits jsval.splits)
  show ?thesis by (simp add: handleMessage_def r c n)
qed

lemma drain_buffer [simp]:
  "buffer (snd (drain raises ms st)) = buffer st"
proof (induction ms arbitrary: st)
  case Nil
  then show ?case by simp
next
  case (Cons m ms)
  obtain e st1 where h: "handleMessage raises (st\<lparr>messageQueue := ms\<rparr>) m = (e, st1)"
    by (cases "handleMessage raises (st\<lparr>messageQueue := ms\<rparr>) m")
  then have "buffer st1 = buffer st"
    using handleMessage_buffer[of raises "st\<lparr>messageQueue := ms\<rparr>" m] by simp
  with Cons.IH[of st1] h show ?case by (cases e) simp_all
qed

lemma processMessageQueue_begin_buffer [simp]:
  "buffer (snd (processMessageQueue_begin raises st)) = buffer st"
proof (cases "messageQueue st")
  case Nil
  then show ?thesis by (simp add: processMessageQueue_begin_def)
next
  case (Cons m ms)
  obtain e st1 where
    h: "handleMessage raises (st\<lparr>processingQueue := True, messageQueue := ms\<rparr>) m = (e, st1)"
    by (cases "handleMessage raises (st\<lparr>processingQueue := True, messageQueue := ms\<rparr>) m")
  then have "buffer st1 = buffer st"
    using handleMessage_buffer[of raises "st\<lparr>processingQueue := True, messageQueue := ms\<rparr>" m]
    by simp
  then show ?thesis
    using Cons h by (simp add: processMessageQueue_begin_def)
qed

lemma processMessageQueue_resume_buffer [simp]:
  "buffer (snd (processMessageQueue_resume raises e st)) = buffer st"
  by (cases e) (simp_all add: processMessageQueue_resume_def)

lemma deliver_buffer [simp]:
  "buffer (snd (deliver raises ds (w, st))) = buffer st"
proof (induction ds arbitrary: w st)
  case Nil
  then show ?case by simp
next
  case (Cons d ds)
  show ?case
  proof (cases d)
    case (Parsed m)
    let ?st1 = "st\<lparr>messageQueue := messageQueue st @ [m]\<rparr>"
    obtain r st2 where b: "processMessageQueue_begin raises ?st1 = (r, st2)"
      by (cases "processMessageQueue_begin raises ?st1")
    then have "buffer st2 = buffer st"
      using processMessageQueue_begin_buffer[of raises ?st1] by simp
    then show ?thesis
      using Parsed b Cons.IH by (cases r) simp_all
  qed (simp_all add: Cons.IH log_def)
qed

text \<open>
  The buffer of the client after \<open>handleData\<close> is the buffer the decoder leaves, chunk after
  chunk.
\<close>

lemma handleData_buffer:
  "buffer (handleData raises parse toString st data)
     = snd (receive parse toString (buffer st) data)"
proof -
  obtain ds rest where r: "receive parse toString (buffer st) data = (ds, rest)"
    by (cases "receive parse toString (buffer st) data")
  obtain w st1 where d: "deliver raises ds (None, st\<lparr>buffer := rest\<rparr>) = (w, st1)"
    by (cases "deliver raises ds (None, st\<lparr>buffer := rest\<rparr>)")
  then have "buffer st1 = rest"
    using deliver_buffer[of raises ds None "st\<lparr>buffer := rest\<rparr>"] by simp
  then show ?thesis
    using r d by (cases w) (simp_all add: handleData_def)
qed

lemma handleData_chunks_buffer:
  "buffer (foldl (handleData raises parse toString) st chunks)
     = snd (decodeChunks parse toString (buffer st) chunks)"
  by (induction chunks arbitrary: st) (simp_all add: handleData_buffer split: prod.splits)

text \<open>
  When a message that arrives is handled: a chunk that is one valid frame of ASCII data
  within the bound, arriving when the buffer and the queue are empty, is decoded and its
  message is handled, with the guard set, before anything else happens; then the guard is
  reset.
\<close>

lemma notify_each_queue [simp]:
  "messageQueue (notify_each raises cbs uri ds st) = messageQueue st"
  by (induction cbs arbitrary: st) (simp_all add: Let_def log_def)

lemma handleMessage_queue [simp]:
  "messageQueue (snd (handleMessage raises st m)) = messageQueue st"
proof -
  have r: "messageQueue (handleResponse st m) = messageQueue st"
    using handleResponse_cases[of st m] by (auto simp: finish_def)
  have c: "\<And>s. messageQueue (storeCapabilities s m) = messageQueue s"
    by (simp add: storeCapabilities_def split: option.splits)
  have n: "\<And>s. messageQueue (snd (handleNotification raises s m)) = messageQueue s"
    by (simp add: handleNotification_def notifyDiagnosticUpdate_def Let_def log_def
          split: option.splits jsval.splits)
  show ?thesis by (simp add: handleMessage_def r c n)
qed

lemma handleData_frame_handled:
  assumes "buffer st = []" and "messageQueue st = []" and "\<not> processingQueue st"
      and "valid_frame parse f" and "toString (frame f) = frame f"
      and "length (frame f) \<le> MAX_BUFFER_SIZE"
  shows "handleData raises parse toString st (frame f)
           = (snd (handleMessage raises (st\<lparr>processingQueue := True\<rparr>) (snd (snd f))))
               \<lparr>processingQueue := False\<rparr>"
proof -
  let ?m = "snd (snd f)"
  have r: "receive parse toString (buffer st) (frame f) = ([Parsed ?m], [])"
    using processBuffer_good_frame[OF assms(4,6), of "[]"] assms(1,5,6)
    by (simp add: receive_def Let_def)
  have same: "st\<lparr>buffer := [], messageQueue := []\<rparr> = st"
    using assms(1,2) by simp
  obtain e st1 where h: "handleMessage raises (st\<lparr>processingQueue := True\<rparr>) ?m = (e, st1)"
    by (cases "handleMessage raises (st\<lparr>processingQueue := True\<rparr>) ?m")
  have q: "messageQueue st1 = []"
    using handleMessage_queue[of raises "st\<lparr>processingQueue := True\<rparr>" ?m] h assms(2)
    by simp
  have hb: "handleMessage raises (st\<lparr>buffer := [], processingQueue := True, messageQueue := []\<rparr>) ?m
              = (e, st1)"
  proof -
    have "st\<lparr>buffer := [], processingQueue := True, messageQueue := []\<rparr>
            = (st\<lparr>buffer := [], messageQueue := []\<rparr>)\<lparr>processingQueue := True\<rparr>"
      by simp
    then show ?thesis by (simp only: same h)
  qed
  have unset: "st1\<lparr>messageQueue := [], processingQueue := False\<rparr> = st1\<lparr>processingQueue := False\<rparr>"
    using q by simp
  show ?thesis
    unfolding handleData_def r
    using assms(3) hb unset
    by (cases e)
       (simp_all add: processMessageQueue_begin_def processMessageQueue_resume_def q h assms(2))
qed

text \<open>
  The guard of \<open>processMessageQueue\<close>: two messages decoded from one chunk, the first a
  diagnostics notification whose handling throws (an item is \<open>null\<close>), the second the
  response to the pending request. The call made for the first message is suspended with
  the guard set, so the call made for the second returns at once; when the first call goes
  on, it throws and resets the guard. The response stays in the queue and the request
  stays pending.
\<close>

lemma response_queued_behind_throw:
  "deliver quiet
     [Parsed (publishDiagnostics ''file:///a.txt'' [JNull]), Parsed (response 1 JNull)]
     (None, hover_client)
     = (Some (Some TypeError),
        hover_client\<lparr>messageQueue := [response 1 JNull], processingQueue := True\<rparr>)
   \<and> processMessageQueue_resume quiet (Some TypeError)
         (hover_client\<lparr>messageQueue := [response 1 JNull], processingQueue := True\<rparr>)
     = (Some TypeError, hover_client\<lparr>messageQueue := [response 1 JNull]\<rparr>)
   \<and> responsePromises hover_client 1 = Some \<lparr>promise = 0, timeoutId = 0\<rparr>
   \<and> settled hover_client = []"
  by (simp add: processMessageQueue_begin_def processMessageQueue_resume_def
        handleMessage_def handleResponse_def storeCapabilities_def handleNotification_def
        publishDiagnostics_def notification_def response_def hover_client_sent new_client_def)

text \<open>What \<open>shutdown\<close> does on a client that is not initialized, and when its request succeeds.\<close>

lemma shutdown_not_initialized:
  "\<not> initialized st \<Longrightarrow> shutdown_begin st = (Completed, st)"
  by (simp add: shutdown_begin_def)

lemma fold_didClose_started:
  assumes "process st \<noteq> None"
  shows "fold (\<lambda>uri s. sendNotification s ''textDocument/didClose'' (Some (didCloseParams uri))) uris st
           = st\<lparr>written := written st @
                  map (\<lambda>uri. notification ''textDocument/didClose'' (didCloseParams uri)) uris\<rparr>"
  using assms
proof (induction uris arbitrary: st)
  case Nil
  then show ?case by simp
next
  case (Cons u uris)
  let ?st1 = "sendNotification st ''textDocument/didClose'' (Some (didCloseParams u))"
  have s: "?st1 = st\<lparr>written := written st @ [notification ''textDocument/didClose'' (didCloseParams u)]\<rparr>"
    by (simp add: sendNotification_started[OF Cons.prems] notification_def)
  have "process ?st1 \<noteq> None" using Cons.prems by (simp add: s)
  from Cons.IH[OF this] show ?case by (simp add: s)
qed

lemma shutdown_success:
  assumes "initialized st" and "process st \<noteq> None"
  shows "\<exists>p st1 st2.
           shutdown_begin st = (Awaiting p, st1)
         \<and> diagnosticSubscribers st1 = []
         \<and> written st1 = written st
              @ map (\<lambda>uri. notification ''textDocument/didClose'' (didCloseParams uri))
                    (openedDocuments st)
              @ [\<lparr>jsonrpc = ''2.0'', msg_id = Some (JNum (int (nextId st))),
                   msg_method = Some ''shutdown'', msg_params = None,
                   msg_result = None, msg_error = None\<rparr>]
         \<and> shutdown_resume st1 (Resolved r) = (Completed, st2)
         \<and> written st2 = written st1
              @ [\<lparr>jsonrpc = ''2.0'', msg_id = None, msg_method = Some ''exit'',
                   msg_params = None, msg_result = None, msg_error = None\<rparr>]
         \<and> openedDocuments st2 = [] \<and> \<not> initialized st2"
proof -
  define s1 where "s1 = clearDiagnosticSubscribers st"
  define s2 where
    "s2 = fold (\<lambda>uri s. sendNotification s ''textDocument/didClose'' (Some (didCloseParams uri)))
            (openedDocuments s1) s1"
  have p1: "process s1 \<noteq> None" and o1: "openedDocuments s1 = openedDocuments st"
    and w1: "written s1 = written st" and n1: "nextId s1 = nextId st"
    using assms(2) by (simp_all add: s1_def clearDiagnosticSubscribers_def)
  have s2: "s2 = s1\<lparr>written := written st @
                  map (\<lambda>uri. notification ''textDocument/didClose'' (didCloseParams uri))
                      (openedDocuments st)\<rparr>"
    unfolding s2_def using fold_didClose_started[OF p1, of "openedDocuments s1"]
    by (simp add: o1 w1)
  have p2: "process s2 \<noteq> None" using p1 by (simp add: s2)
  define s3 where "s3 = snd (sendRequest s2 ''shutdown'' None)"
  have sb: "shutdown_begin st = (Awaiting (nextPromise s2), s3)"
    using assms(1)
    by (simp add: shutdown_begin_def Let_def s1_def[symmetric] s2_def[symmetric] s3_def
          sendRequest_started[OF p2])
  have f3: "diagnosticSubscribers s3 = []"
    "written s3 = written st
              @ map (\<lambda>uri. notification ''textDocument/didClose'' (didCloseParams uri))
                    (openedDocuments st)
              @ [\<lparr>jsonrpc = ''2.0'', msg_id = Some (JNum (int (nextId st))),
                   msg_method = Some ''shutdown'', msg_params = None,
                   msg_result = None, msg_error = None\<rparr>]"
    "process s3 \<noteq> None"
  proof -
    have s3: "s3 = snd (nextPromise s2,
      s2\<lparr>nextId := Suc (nextId s2),
         nextPromise := Suc (nextPromise s2),
         nextTimer := Suc (nextTimer s2),
         timers := (timers s2)(nextTimer s2 \<mapsto>
            \<lparr>timer_id = nextId s2, timer_method = ''shutdown'', timer_promise = nextPromise s2,
              delay = REQUEST_TIMEOUT\<rparr>),
         responsePromises := (responsePromises s2)(nextId s2 \<mapsto>
            \<lparr>promise = nextPromise s2, timeoutId = nextTimer s2\<rparr>),
         written := written s2 @
            [\<lparr>jsonrpc = ''2.0'', msg_id = Some (JNum (int (nextId s2))),
              msg_method = Some ''shutdown'', msg_params = None,
              msg_result = None, msg_error = None\<rparr>]\<rparr>)"
      unfolding s3_def by (simp only: sendRequest_started[OF p2])
    have d2: "diagnosticSubscribers s2 = []" "nextId s2 = nextId st"
      "written s2 = written st @
                  map (\<lambda>uri. notification ''textDocument/didClose'' (didCloseParams uri))
                      (openedDocuments st)"
      by (simp_all add: s2 s1_def clearDiagnosticSubscribers_def)
    show "diagnosticSubscribers s3 = []"
      "written s3 = written st
              @ map (\<lambda>uri. notification ''textDocument/didClose'' (didCloseParams uri))
                    (openedDocuments st)
              @ [\<lparr>jsonrpc = ''2.0'', msg_id = Some (JNum (int (nextId st))),
                   msg_method = Some ''shutdown'', msg_params = None,
                   msg_result = None, msg_error = None\<rparr>]"
      "process s3 \<noteq> None"
      using p2 by (simp_all add: s3 d2)
  qed
  define s4 where "s4 = snd (shutdown_resume s3 (Resolved r))"
  have sr: "shutdown_resume s3 (Resolved r) = (Completed, s4)"
    by (simp add: s4_def shutdown_resume_def)
  have f4: "written s4 = written s3
              @ [\<lparr>jsonrpc = ''2.0'', msg_id = None, msg_method = Some ''exit'',
                   msg_params = None, msg_result = None, msg_error = None\<rparr>]"
    "openedDocuments s4 = []" "\<not> initialized s4"
    by (simp_all add: s4_def shutdown_resume_def sendNotification_started[OF f3(3)] log_def)
  from sb f3 sr f4 show ?thesis by blast
qed

text \<open>
  \<open>openDocument\<close>, \<open>closeDocument\<close> and the reset of \<open>restart\<close> keep the open set and the keys
  of the version map equal.
\<close>

lemma openDocument_keeps_sessions:
  assumes "set (openedDocuments st) = dom (documentVersions st)"
      and "openDocument st uri content languageId = Inr st1"
  shows "set (openedDocuments st1) = dom (documentVersions st1)"
  using assms
  by (auto simp: openDocument_def Let_def sendNotification_def log_def set_add_def
        split: if_splits)

lemma closeDocument_keeps_sessions:
  assumes "set (openedDocuments st) = dom (documentVersions st)"
      and "closeDocument st uri = Inr st1"
  shows "set (openedDocuments st1) = dom (documentVersions st1)"
  using assms
  by (auto simp: closeDocument_def Let_def sendNotification_def log_def set_delete_def
        split: if_splits)

lemma reset_state_sessions:
  "set (openedDocuments (reset_state st)) = dom (documentVersions (reset_state st))"
  by (simp add: reset_state_def)

text \<open>
  \<open>subscribeToDiagnostics\<close> with a callback that does not throw on the stored entries adds
  it and calls it on every entry, in order. \<open>notifyDiagnosticUpdate\<close> calls every
  subscriber, whether the calls throw or not, and returns.
\<close>

lemma deliver_stored_all:
  assumes "\<forall>(u, d) \<in> set al. \<not> raises cb u d"
  shows "deliver_stored raises cb al st
           = (None, st\<lparr>invoked := invoked st @ map (\<lambda>(u, d). (cb, u, d)) al\<rparr>)"
  using assms
  by (induction al arbitrary: st) (auto simp: Let_def)

lemma subscribe_delivers_all:
  assumes "\<forall>(u, d) \<in> set (documentDiagnostics st). \<not> raises cb u d"
  shows "subscribeToDiagnostics raises st cb
           = (None, st\<lparr>diagnosticSubscribers := set_add cb (diagnosticSubscribers st),
                        invoked := invoked st @ map (\<lambda>(u, d). (cb, u, d)) (documentDiagnostics st)\<rparr>)"
  using assms by (simp add: subscribeToDiagnostics_def Let_def deliver_stored_all)

lemma notifyDiagnosticUpdate_all:
  "invoked (notifyDiagnosticUpdate raises st uri ds)
     = invoked st @ map (\<lambda>cb. (cb, uri, ds)) (diagnosticSubscribers st)"
  by (simp add: notifyDiagnosticUpdate_def notify_each_invoked)

text \<open>
  The reset of \<open>restart\<close> empties the table of pending calls, starts the ids at 1 again and
  settles no promise; the timers stay armed.
\<close>

lemma restart_reset_abandons:
  "responsePromises (snd (restart_reset pid resolve st None)) = Map.empty
   \<and> nextId (snd (restart_reset pid resolve st None)) = 1
   \<and> settled (snd (restart_reset pid resolve st None)) = settled st
   \<and> timers (snd (restart_reset pid resolve st None)) = timers st"
  by (simp add: restart_reset_def startProcess_def reset_state_def kill_process_def log_def
        Let_def split: option.splits)

text \<open>
  A \<open>restart\<close> that runs while no timer is armed leaves the correlator in a state from which
  the runs above start: the table is empty, and so is the set of timers.
\<close>

lemma restart_reset_correlator_ok:
  assumes "timers st = Map.empty" and "\<forall>s \<in> set (settled st). fst s < nextPromise st"
  shows "correlator_ok (snd (restart_reset pid resolve st rootDirectory))"
proof -
  let ?st1 = "startProcess (reset_state (kill_process st))"
  have f: "timers ?st1 = Map.empty" "responsePromises ?st1 = Map.empty"
    "settled ?st1 = settled st" "nextPromise ?st1 = nextPromise st"
    using assms(1)
    by (simp_all add: startProcess_def reset_state_def kill_process_def log_def
          split: option.splits)
  have ok1: "correlator_ok ?st1"
    using assms(2) by (simp add: correlator_ok_def f)
  have started: "process ?st1 \<noteq> None"
    by (simp add: startProcess_def)
  have "correlator_ok (snd (initialize_begin pid resolve ?st1 root))" for root
  proof (cases "initialized ?st1")
    case True
    then show ?thesis using ok1 by (simp add: initialize_begin_def)
  next
    case False
    obtain child where "process ?st1 = Some child"
      by (simp add: startProcess_def)
    then have "snd (initialize_begin pid resolve ?st1 root)
            = snd (sendRequest ?st1 ''initialize'' (Some (initializeParams pid (resolve root))))"
      using False by (simp add: initialize_begin_def Let_def split: prod.splits)
    then show ?thesis
      using sendRequest_correlator_ok[OF ok1] by simp
  qed
  then show ?thesis
    using ok1 by (simp add: restart_reset_def Let_def split: option.splits)
qed

end
